theory Spec2Isabelle
  imports Complex_Main "HOL-Library.Multiset" "HOL-Library.Log_Nat"
begin

section \<open>Configuration constants\<close>

text \<open>
  The string constants of the configuration (\<^verbatim>\<open>MOVEMENT_TYPES\<close>, \<^verbatim>\<open>DIRECTIONS\<close>,
  \<^verbatim>\<open>STATUS\<close>, \<^verbatim>\<open>SOURCES\<close>), with the values the source gives them.
\<close>

definition MOVEMENT_TYPES_EXPENSE :: string where "MOVEMENT_TYPES_EXPENSE = ''Expense''"
definition MOVEMENT_TYPES_DEBIT :: string where "MOVEMENT_TYPES_DEBIT = ''Debit''"
definition MOVEMENT_TYPES_CREDIT :: string where "MOVEMENT_TYPES_CREDIT = ''Credit''"
definition MOVEMENT_TYPES_DEBIT_REPAYMENT :: string where
  "MOVEMENT_TYPES_DEBIT_REPAYMENT = ''Debit Repayment''"

definition DIRECTIONS_OUTFLOW :: string where "DIRECTIONS_OUTFLOW = ''Outflow''"
definition DIRECTIONS_NEUTRAL :: string where "DIRECTIONS_NEUTRAL = ''Neutral''"

definition STATUS_SETTLED :: string where "STATUS_SETTLED = ''Settled''"
definition STATUS_PENDING_DIRECT_SETTLEMENT :: string where
  "STATUS_PENDING_DIRECT_SETTLEMENT = ''Pending Settlement''"

definition SOURCES_MONZO :: string where "SOURCES_MONZO = ''monzo''"
definition SOURCES_SPLITWISE :: string where "SOURCES_SPLITWISE = ''splitwise''"

section \<open>Numbers\<close>

text \<open>
  A JavaScript number is a binary64 floating-point number. A finite number is modelled by
  the rational it is, and every arithmetic operation of the code (\<^verbatim>\<open>-\<close>, \<^verbatim>\<open>*\<close>, \<^verbatim>\<open>/\<close>) by
  the exact operation followed by \<open>toDouble\<close>, the rounding to the nearest binary64 number
  that IEEE 754 prescribes and ECMAScript adopts: a number \<open>x\<close> with
  \<open>2\<^sup>e \<le> \<bar>x\<bar> < 2\<^sup>e\<^sup>+\<^sup>1\<close> is rounded to the nearest multiple of \<open>2\<^sup>e\<^sup>-\<^sup>5\<^sup>2\<close>, a tie going to
  the even multiple; below \<open>2\<^sup>-\<^sup>1\<^sup>0\<^sup>2\<^sup>2\<close> the spacing stays \<open>2\<^sup>-\<^sup>1\<^sup>0\<^sup>7\<^sup>4\<close> (the subnormal
  numbers). A decimal literal such as \<^verbatim>\<open>0.95\<close>, and a decimal typed into a cell, denotes
  the double nearest to it, \<open>toDouble (95 / 100)\<close>.

  A result whose magnitude, so rounded with an unbounded exponent, is \<open>2\<^sup>1\<^sup>0\<^sup>2\<^sup>4\<close> or more is
  not a double: the operation overflows to an infinity. \<open>finiteDouble\<close> says of the
  rounded result that it does not, and each place that computes says what becomes of an
  overflow. The sign of a zero is not modelled.
\<close>

definition roundHalfEven :: "rat \<Rightarrow> int" where
  "roundHalfEven y =
     (let f = \<lfloor>y\<rfloor>; r = y - of_int f
      in if r < 1 / 2 then f else if r > 1 / 2 then f + 1 else if even f then f else f + 1)"

text \<open>The exponent \<open>e\<close> with \<open>2\<^sup>e \<le> \<bar>x\<bar> < 2\<^sup>e\<^sup>+\<^sup>1\<close>, for \<open>x\<close> other than 0
  (\<open>floorlog 2 n\<close> is the number of binary digits of \<open>n\<close>).\<close>

definition binade :: "rat \<Rightarrow> int" where
  "binade x =
     (if 1 \<le> \<bar>x\<bar> then int (floorlog 2 (nat \<lfloor>\<bar>x\<bar>\<rfloor>)) - 1
      else - int (floorlog 2 (nat (\<lceil>1 / \<bar>x\<bar>\<rceil> - 1))))"

definition toDouble :: "rat \<Rightarrow> rat" where
  "toDouble x =
     (if x = 0 then 0
      else (let e = max (binade x) (- 1022); q = 2 powi (e - 52)
            in of_int (roundHalfEven (x / q)) * q))"

definition finiteDouble :: "rat \<Rightarrow> bool" where
  "finiteDouble x = (\<bar>x\<bar> < 2 ^ 1024)"

section \<open>The ledger: rows of the Movements sheet\<close>

text \<open>
  A cell of one of the three currency-value columns holds a number, or text that is not a
  number (an error value of the sheet such as \<^verbatim>\<open>#NUM!\<close>, or a formula), or the result
  of arithmetic that is not a finite number (\<^verbatim>\<open>NaN\<close> or an infinity), all of which is
  \<open>NaN\<close> here.
\<close>

datatype cvalue = Num rat | Text string | NaN

text \<open>
  One data row of the sheet. The fields are the columns of \<^verbatim>\<open>COLUMNS\<close>, in that order
  and under those names, so that \<^verbatim>\<open>movement[COLUMNS.AMOUNT]\<close> reads \<open>AMOUNT movement\<close>
  (the column \<^verbatim>\<open>TYPE\<close> is the field \<open>TYPE'\<close>).
  An empty text cell is the empty string (the sheet reads an empty cell back as \<^verbatim>\<open>''\<close>,
  and \<^verbatim>\<open>null\<close> written to a cell empties it); an empty numeric cell of an optional
  column is \<open>None\<close>. The timestamp is the epoch time of the \<^verbatim>\<open>Date\<close> object, \<open>None\<close>
  for an invalid date. The amount is a finite number.
\<close>

record movement =
  TIMESTAMP :: "int option"
  DIRECTION :: string
  TYPE' :: string
  AMOUNT :: rat
  CURRENCY :: string
  SOURCE_DESCRIPTION :: string
  USER_DESCRIPTION :: string
  COMMENT :: string
  AI_COMMENT :: string
  CATEGORY :: string
  STATUS :: string
  SETTLED_MOVEMENT_ID :: "int option"
  CLP_VALUE :: cvalue
  USD_VALUE :: cvalue
  GBP_VALUE :: cvalue
  ORIGINAL_AMOUNT :: "rat option"
  ID :: int
  SOURCE :: string
  SOURCE_ID :: string
  ACCOUNTING_SYSTEM_ID :: "int option"

text \<open>
  The sheet is the list of its data rows, in sheet order; row 1 of the sheet is the header,
  so \<^verbatim>\<open>getLastRow()\<close> is one more than the number of data rows.
\<close>

type_synonym sheet = "movement list"

definition getLastRow :: "sheet \<Rightarrow> nat" where
  "getLastRow s = length s + 1"

text \<open>
  What the code throws. A function that writes to the sheet and may throw returns the
  thrown error or its result, together with the sheet as it is left: nothing is rolled
  back when an error is thrown.
\<close>

datatype error = DuplicateId int | ReferenceError string | RangeError

type_synonym 'a outcome = "(error + 'a) \<times> sheet"

subsection \<open>Reading\<close>

definition getAllMovements :: "sheet \<Rightarrow> movement list" where
  "getAllMovements s = (if getLastRow s \<le> 1 then [] else s)"

text \<open>\<^verbatim>\<open>Array.prototype.findIndex\<close>: the first index whose element satisfies the
  predicate; \<open>None\<close> stands for \<^verbatim>\<open>-1\<close>.\<close>

fun findIndex :: "('a \<Rightarrow> bool) \<Rightarrow> 'a list \<Rightarrow> nat option" where
  "findIndex p [] = None"
| "findIndex p (x # xs) =
     (if p x then Some 0 else map_option Suc (findIndex p xs))"

text \<open>\<^verbatim>\<open>getNextId\<close>: the loop keeps the largest id seen that is truthy and above the
  running maximum, which starts at 0.\<close>

definition getNextId :: "sheet \<Rightarrow> int" where
  "getNextId s =
     (if getLastRow s \<le> 1 then 1
      else foldl (\<lambda>maxId row. if ID row \<noteq> 0 \<and> ID row > maxId then ID row else maxId) 0 s + 1)"

definition idExists :: "int \<Rightarrow> sheet \<Rightarrow> bool" where
  "idExists i s = (if getLastRow s \<le> 1 then False else list_ex (\<lambda>row. ID row = i) s)"

subsection \<open>Inserting\<close>

definition addMovement :: "movement \<Rightarrow> sheet \<Rightarrow> unit outcome" where
  "addMovement movementRow s =
     (let movementId = ID movementRow
      in if idExists movementId s then (Inl (DuplicateId movementId), s)
         else (Inr (), s @ [movementRow]))"

subsection \<open>Writing cells\<close>

text \<open>
  \<^verbatim>\<open>this.sheet.getRange(sheetRowIndex, column).setValue(v)\<close>: the row with the 1-based
  sheet index \<open>sheetRowIndex\<close> is data row \<open>sheetRowIndex - 2\<close>; the function \<open>f\<close> is the
  update of the cells written.
\<close>

definition setValues :: "nat \<Rightarrow> (movement \<Rightarrow> movement) \<Rightarrow> sheet \<Rightarrow> sheet" where
  "setValues sheetRowIndex f s = s[sheetRowIndex - 2 := f (s ! (sheetRowIndex - 2))]"

text \<open>A text value that may be \<^verbatim>\<open>null\<close>, as written to a cell and read back.\<close>

definition cellText :: "string option \<Rightarrow> string" where
  "cellText v = (case v of None \<Rightarrow> [] | Some t \<Rightarrow> t)"

text \<open>A number that may be \<^verbatim>\<open>null\<close>, as arithmetic and comparisons read it: \<^verbatim>\<open>null\<close>
  counts as 0.\<close>

definition toNumber :: "rat option \<Rightarrow> rat" where
  "toNumber v = (case v of None \<Rightarrow> 0 | Some x \<Rightarrow> x)"

text \<open>\<^verbatim>\<open>a || b\<close> on text: \<^verbatim>\<open>null\<close> and the empty string are falsy.\<close>

definition orText :: "string option \<Rightarrow> string \<Rightarrow> string" where
  "orText a b = (case a of None \<Rightarrow> b | Some t \<Rightarrow> if t = [] then b else t)"

text \<open>Decimal notation of an integer, for the template strings that embed an id.\<close>

definition digit :: "nat \<Rightarrow> char" where
  "digit n = ''0123456789'' ! n"

fun digits :: "nat \<Rightarrow> string" where
  "digits n = (if n < 10 then [digit n] else digits (n div 10) @ [digit (n mod 10)])"

definition toString :: "int \<Rightarrow> string" where
  "toString i = (if i < 0 then CHR ''-'' # digits (nat (- i)) else digits (nat i))"

subsection \<open>Splitting\<close>

record currency_values =
  clpValue :: cvalue
  usdValue :: cvalue
  gbpValue :: cvalue

text \<open>
  The split information taken from the classifier's analysis. \<^verbatim>\<open>split_amount\<close> is a
  number or \<^verbatim>\<open>null\<close>; the texts may be \<^verbatim>\<open>null\<close>.
\<close>

record splitInfo =
  split_amount :: "rat option"
  split_category :: "string option"
  split_description :: "string option"
  clean_description :: "string option"

text \<open>
  \<^verbatim>\<open>Database.splitMovement\<close>. The class \<^verbatim>\<open>CurrencyConversionService\<close> is not among the
  sources, so its method \<^verbatim>\<open>splitCurrencyValues\<close> is the parameter of that name.
  The original row is rewritten before the new row is added, and stays rewritten if adding
  throws. The constant \<^verbatim>\<open>splitRatio\<close> the function computes is never read and is left
  out. A split amount of \<^verbatim>\<open>null\<close> empties the amount cell it is written to; the model
  writes the 0 that arithmetic reads it as. The remaining amount is the rounded
  difference; a difference that overflows is outside what an amount of the model holds.
\<close>

definition splitMovement ::
  "(rat \<Rightarrow> rat \<Rightarrow> currency_values \<Rightarrow> currency_values) \<Rightarrow> int \<Rightarrow> splitInfo \<Rightarrow> sheet
     \<Rightarrow> int option outcome" where
  "splitMovement splitCurrencyValues originalMovementId splitInfo s =
     (let allMovements = getAllMovements s
      in case findIndex (\<lambda>movement. ID movement = originalMovementId) allMovements of
           None \<Rightarrow> (Inr None, s)
         | Some originalMovementIndex \<Rightarrow>
             (let originalMovement = allMovements ! originalMovementIndex;
                  nextId = getNextId s;
                  remainingAmount =
                    toDouble (AMOUNT originalMovement - toNumber (split_amount splitInfo));
                  originalCurrencyValues =
                    \<lparr>clpValue = CLP_VALUE originalMovement,
                     usdValue = USD_VALUE originalMovement,
                     gbpValue = GBP_VALUE originalMovement\<rparr>;
                  personalCurrencyValues =
                    splitCurrencyValues (AMOUNT originalMovement)
                      (toNumber (split_amount splitInfo)) originalCurrencyValues;
                  sharedCurrencyValues =
                    splitCurrencyValues (AMOUNT originalMovement)
                      remainingAmount originalCurrencyValues;
                  sheetRowIndex = originalMovementIndex + 2;
                  s1 = setValues sheetRowIndex
                    (\<lambda>r. r\<lparr>AMOUNT := toNumber (split_amount splitInfo),
                          CATEGORY := cellText (split_category splitInfo),
                          USER_DESCRIPTION := cellText (clean_description splitInfo),
                          COMMENT := [],
                          AI_COMMENT := ''Split into #'' @ toString nextId,
                          ORIGINAL_AMOUNT := Some (AMOUNT originalMovement),
                          CLP_VALUE := clpValue personalCurrencyValues,
                          USD_VALUE := usdValue personalCurrencyValues,
                          GBP_VALUE := gbpValue personalCurrencyValues\<rparr>) s;
                  sharedMovement = originalMovement
                    \<lparr>ID := nextId,
                     AMOUNT := remainingAmount,
                     CATEGORY := cellText (split_category splitInfo),
                     USER_DESCRIPTION := cellText (split_description splitInfo),
                     DIRECTION := DIRECTIONS_NEUTRAL,
                     TYPE' := MOVEMENT_TYPES_DEBIT,
                     STATUS := STATUS_PENDING_DIRECT_SETTLEMENT,
                     COMMENT := [],
                     AI_COMMENT := ''Split from #'' @ toString originalMovementId,
                     ORIGINAL_AMOUNT := Some (AMOUNT originalMovement),
                     CLP_VALUE := clpValue sharedCurrencyValues,
                     USD_VALUE := usdValue sharedCurrencyValues,
                     GBP_VALUE := gbpValue sharedCurrencyValues\<rparr>
              in case addMovement sharedMovement s1 of
                   (Inl e, s2) \<Rightarrow> (Inl e, s2)
                 | (Inr u, s2) \<Rightarrow> (Inr (Some nextId), s2)))"

text \<open>
  \<^verbatim>\<open>Database.splitExpenseForRecategorization\<close>: the amounts are validated before any cell
  is written.
\<close>

definition splitExpenseForRecategorization ::
  "(rat \<Rightarrow> rat \<Rightarrow> currency_values \<Rightarrow> currency_values) \<Rightarrow> int \<Rightarrow> splitInfo \<Rightarrow> sheet
     \<Rightarrow> int option outcome" where
  "splitExpenseForRecategorization splitCurrencyValues originalMovementId splitInfo s =
     (let allMovements = getAllMovements s
      in case findIndex (\<lambda>movement. ID movement = originalMovementId) allMovements of
           None \<Rightarrow> (Inr None, s)
         | Some originalMovementIndex \<Rightarrow>
             (let originalMovement = allMovements ! originalMovementIndex;
                  nextId = getNextId s;
                  originalAmount = AMOUNT originalMovement;
                  splitAmount = toNumber (split_amount splitInfo)
              in if splitAmount \<ge> originalAmount \<or> splitAmount \<le> 0 then (Inr None, s)
                 else
                  (let remainingAmount = toDouble (originalAmount - splitAmount);
                       originalCurrencyValues =
                         \<lparr>clpValue = CLP_VALUE originalMovement,
                          usdValue = USD_VALUE originalMovement,
                          gbpValue = GBP_VALUE originalMovement\<rparr>;
                       remainingCurrencyValues =
                         splitCurrencyValues originalAmount remainingAmount originalCurrencyValues;
                       splitCurrencyValues' =
                         splitCurrencyValues originalAmount splitAmount originalCurrencyValues;
                       sheetRowIndex = originalMovementIndex + 2;
                       s1 = setValues sheetRowIndex
                         (\<lambda>r. r\<lparr>AMOUNT := remainingAmount,
                               USER_DESCRIPTION :=
                                 orText (clean_description splitInfo)
                                   (USER_DESCRIPTION originalMovement),
                               CATEGORY := [],
                               COMMENT := [],
                               AI_COMMENT := ''Split into #'' @ toString nextId,
                               ORIGINAL_AMOUNT := Some originalAmount,
                               CLP_VALUE := clpValue remainingCurrencyValues,
                               USD_VALUE := usdValue remainingCurrencyValues,
                               GBP_VALUE := gbpValue remainingCurrencyValues\<rparr>) s;
                       newMovement = originalMovement
                         \<lparr>ID := nextId,
                          AMOUNT := splitAmount,
                          USER_DESCRIPTION := cellText (split_description splitInfo),
                          CATEGORY := [],
                          COMMENT := [],
                          AI_COMMENT := ''Split from #'' @ toString originalMovementId,
                          ORIGINAL_AMOUNT := Some originalAmount,
                          CLP_VALUE := clpValue splitCurrencyValues',
                          USD_VALUE := usdValue splitCurrencyValues',
                          GBP_VALUE := gbpValue splitCurrencyValues'\<rparr>
                   in case addMovement newMovement s1 of
                        (Inl e, s2) \<Rightarrow> (Inl e, s2)
                      | (Inr u, s2) \<Rightarrow> (Inr (Some nextId), s2))))"

text \<open>Modelled from the spec: \<^verbatim>\<open>CurrencyConversionService.splitCurrencyValues\<close> is
  not among the sources. The specification gives it as \<^verbatim>\<open>splitProportionally(originalAmount,
  partAmount, originalValues)\<close>: for each reporting currency,
  \<^verbatim>\<open>partValues[c] = originalValues[c] * (partAmount / originalAmount)\<close>, a division and a
  multiplication of JavaScript numbers, each of them rounded. The product is a number when
  the original value is a number, the original amount is not 0 and neither operation
  overflows; otherwise the arithmetic does not give a finite number, which is \<open>NaN\<close> here.
\<close>

definition scaleValue :: "rat \<Rightarrow> rat \<Rightarrow> cvalue \<Rightarrow> cvalue" where
  "scaleValue originalAmount partAmount v =
     (case v of
        Num x \<Rightarrow>
          if originalAmount = 0 then NaN
          else
           (let ratio = toDouble (partAmount / originalAmount);
                product = toDouble (x * ratio)
            in if finiteDouble ratio \<and> finiteDouble product then Num product else NaN)
      | Text t \<Rightarrow> NaN
      | NaN \<Rightarrow> NaN)"

definition splitProportionally :: "rat \<Rightarrow> rat \<Rightarrow> currency_values \<Rightarrow> currency_values" where
  "splitProportionally originalAmount partAmount originalValues =
     \<lparr>clpValue = scaleValue originalAmount partAmount (clpValue originalValues),
      usdValue = scaleValue originalAmount partAmount (usdValue originalValues),
      gbpValue = scaleValue originalAmount partAmount (gbpValue originalValues)\<rparr>"

section \<open>Settlement matching\<close>

text \<open>
  The result of an operation on numbers, which may be an infinity or \<^verbatim>\<open>NaN\<close>; \<open>js_number\<close>
  is the result whose rounding is \<open>x\<close>: an infinity when the operation overflows.
\<close>

datatype jsnum = Finite rat | PosInfinity | NegInfinity | NotANumber

definition js_number :: "rat \<Rightarrow> jsnum" where
  "js_number x =
     (if finiteDouble x then Finite x else if x > 0 then PosInfinity else NegInfinity)"

text \<open>
  Division of two numbers as JavaScript evaluates it: the quotient is rounded, and a zero
  divisor gives an infinity or \<^verbatim>\<open>NaN\<close>, never an error.
\<close>

definition js_div :: "rat \<Rightarrow> rat \<Rightarrow> jsnum" where
  "js_div a b =
     (if b \<noteq> 0 then js_number (toDouble (a / b))
      else if a > 0 then PosInfinity
      else if a < 0 then NegInfinity
      else NotANumber)"

text \<open>Multiplication by a positive constant, the product rounded, and \<^verbatim>\<open>>=\<close> against a
  constant.\<close>

definition js_times :: "jsnum \<Rightarrow> rat \<Rightarrow> jsnum" where
  "js_times x c = (case x of Finite v \<Rightarrow> js_number (toDouble (v * c)) | other \<Rightarrow> other)"

definition js_ge :: "jsnum \<Rightarrow> rat \<Rightarrow> bool" where
  "js_ge x c =
     (case x of Finite v \<Rightarrow> v \<ge> c | PosInfinity \<Rightarrow> True | NegInfinity \<Rightarrow> False
      | NotANumber \<Rightarrow> False)"

definition getMovementsPendingDirectSettlement :: "sheet \<Rightarrow> movement list" where
  "getMovementsPendingDirectSettlement s =
     filter (\<lambda>movement. TYPE' movement = MOVEMENT_TYPES_DEBIT \<and>
                         STATUS movement = STATUS_PENDING_DIRECT_SETTLEMENT)
       (getAllMovements s)"

definition updateMovementSettledId :: "int \<Rightarrow> int \<Rightarrow> sheet \<Rightarrow> sheet" where
  "updateMovementSettledId movementId settledMovementId s =
     (case findIndex (\<lambda>movement. ID movement = movementId) (getAllMovements s) of
        None \<Rightarrow> s
      | Some movementRowIndex \<Rightarrow>
          (let sheetRowIndex = movementRowIndex + 2
           in setValues sheetRowIndex
                (\<lambda>r. r\<lparr>SETTLED_MOVEMENT_ID := Some settledMovementId\<rparr>) s))"

definition updateMovementStatus :: "int \<Rightarrow> string \<Rightarrow> sheet \<Rightarrow> sheet" where
  "updateMovementStatus movementId status s =
     (case findIndex (\<lambda>movement. ID movement = movementId) (getAllMovements s) of
        None \<Rightarrow> s
      | Some movementRowIndex \<Rightarrow>
          (let sheetRowIndex = movementRowIndex + 2
           in setValues sheetRowIndex (\<lambda>r. r\<lparr>STATUS := status\<rparr>) s))"

record amountData =
  amount :: rat
  currency :: string

record repaymentData = amountData +
  userDescription :: string
  comment :: string
  timestamp :: "int option"

text \<open>
  \<^verbatim>\<open>ExpenseTracker.processDebitRepaymentSettlement\<close>. The matcher asks the external
  model, so \<^verbatim>\<open>matchDebitRepayment\<close> is a parameter: it returns an id or \<^verbatim>\<open>null\<close>.
  The id 0 is falsy. Every error is caught inside, so the function always returns; the two
  branches below 95 percent differ in the message logged only.
\<close>

definition processDebitRepaymentSettlement ::
  "(repaymentData \<Rightarrow> movement list \<Rightarrow> int option) \<Rightarrow> int \<Rightarrow> movement \<Rightarrow> sheet \<Rightarrow> sheet" where
  "processDebitRepaymentSettlement matchDebitRepayment repaymentMovementId repaymentMovement s =
     (let pendingDebits = getMovementsPendingDirectSettlement s
      in if length pendingDebits = 0 then s
         else
          (let repaymentData =
                 \<lparr>amount = AMOUNT repaymentMovement,
                  currency = CURRENCY repaymentMovement,
                  userDescription = USER_DESCRIPTION repaymentMovement,
                  comment = COMMENT repaymentMovement,
                  timestamp = TIMESTAMP repaymentMovement\<rparr>
           in case matchDebitRepayment repaymentData pendingDebits of
                None \<Rightarrow> s
              | Some matchedDebitId \<Rightarrow>
                  if matchedDebitId = 0 then s
                  else
                   (case find (\<lambda>debit. ID debit = matchedDebitId) pendingDebits of
                      None \<Rightarrow> s
                    | Some matchedDebit \<Rightarrow>
                        (let debitAmount = AMOUNT matchedDebit;
                             repaymentAmount = AMOUNT repaymentMovement;
                             repaymentPercentage =
                               js_times (js_div repaymentAmount debitAmount) 100;
                             s1 = updateMovementSettledId repaymentMovementId matchedDebitId s
                         in if js_ge repaymentPercentage 95
                            then updateMovementStatus matchedDebitId STATUS_SETTLED s1
                            else if js_ge repaymentPercentage 50 then s1
                            else s1))))"

section \<open>Repair of failed currency conversions\<close>

text \<open>Truthiness of a cell value: 0, the empty text and \<^verbatim>\<open>NaN\<close> are falsy.\<close>

definition truthy :: "cvalue \<Rightarrow> bool" where
  "truthy v = (case v of Num x \<Rightarrow> x \<noteq> 0 | Text t \<Rightarrow> t \<noteq> [] | NaN \<Rightarrow> False)"

text \<open>
  \<^verbatim>\<open>isFailedConversion\<close> and \<^verbatim>\<open>fixCurrencyConversion\<close> belong to the conversion service,
  which is not among the sources: both are parameters. \<^verbatim>\<open>fixCurrencyConversion\<close>
  returns the three values or \<^verbatim>\<open>null\<close>.
\<close>

definition getMovementsWithFailedCurrencyConversion ::
  "(cvalue \<Rightarrow> bool) \<Rightarrow> sheet \<Rightarrow> movement list" where
  "getMovementsWithFailedCurrencyConversion isFailedConversion s =
     filter (\<lambda>movement.
               isFailedConversion (CLP_VALUE movement) \<or>
               isFailedConversion (USD_VALUE movement) \<or>
               isFailedConversion (GBP_VALUE movement))
       (getAllMovements s)"

text \<open>
  \<^verbatim>\<open>Database.fixMovementCurrencyConversion\<close>. After the three early returns the function
  writes the values with \<^verbatim>\<open>this.sheet.getRange(sheetRowIndex, ...)\<close>, but unlike the
  other update functions it never declares \<^verbatim>\<open>sheetRowIndex\<close>, and no source declares
  it globally. Reading an undeclared variable throws a \<^verbatim>\<open>ReferenceError\<close>, so the
  first write throws and \<^verbatim>\<open>return true\<close> is never reached.
\<close>

definition fixMovementCurrencyConversion ::
  "(rat \<Rightarrow> string \<Rightarrow> currency_values option) \<Rightarrow> int \<Rightarrow> sheet \<Rightarrow> bool outcome" where
  "fixMovementCurrencyConversion fixCurrencyConversion movementId s =
     (let allMovements = getAllMovements s
      in case findIndex (\<lambda>movement. ID movement = movementId) allMovements of
           None \<Rightarrow> (Inr False, s)
         | Some movementRowIndex \<Rightarrow>
             (let movement = allMovements ! movementRowIndex;
                  amount = AMOUNT movement;
                  currency = CURRENCY movement
              in if amount = 0 \<or> currency = [] then (Inr False, s)
                 else
                  (case fixCurrencyConversion amount currency of
                     None \<Rightarrow> (Inr False, s)
                   | Some currencyValues \<Rightarrow>
                       if \<not> truthy (clpValue currencyValues) \<and>
                          \<not> truthy (usdValue currencyValues) \<and>
                          \<not> truthy (gbpValue currencyValues)
                       then (Inr False, s)
                       else (Inl (ReferenceError ''sheetRowIndex is not defined''), s))))"

record repairResult =
  successCount :: nat
  failureCount :: nat

text \<open>The \<^verbatim>\<open>forEach\<close> of the repair pass: an error thrown by one repair ends it.\<close>

fun fixEach ::
  "(rat \<Rightarrow> string \<Rightarrow> currency_values option) \<Rightarrow> movement list \<Rightarrow> repairResult \<Rightarrow> sheet
     \<Rightarrow> repairResult outcome" where
  "fixEach fixCurrencyConversion [] counts s = (Inr counts, s)"
| "fixEach fixCurrencyConversion (movement # rest) counts s =
     (case fixMovementCurrencyConversion fixCurrencyConversion (ID movement) s of
        (Inl e, s') \<Rightarrow> (Inl e, s')
      | (Inr fixed, s') \<Rightarrow>
          if fixed
          then fixEach fixCurrencyConversion rest
                 (counts\<lparr>successCount := successCount counts + 1\<rparr>) s'
          else fixEach fixCurrencyConversion rest
                 (counts\<lparr>failureCount := failureCount counts + 1\<rparr>) s')"

definition fixAllFailedCurrencyConversions ::
  "(cvalue \<Rightarrow> bool) \<Rightarrow> (rat \<Rightarrow> string \<Rightarrow> currency_values option) \<Rightarrow> sheet
     \<Rightarrow> repairResult outcome" where
  "fixAllFailedCurrencyConversions isFailedConversion fixCurrencyConversion s =
     (let failedMovements = getMovementsWithFailedCurrencyConversion isFailedConversion s
      in fixEach fixCurrencyConversion failedMovements
           \<lparr>successCount = 0, failureCount = 0\<rparr> s)"

section \<open>Batch insertion\<close>

text \<open>
  An item of a batch: the timestamp text \<^verbatim>\<open>ts\<close> (empty when missing) and the row. The
  source ids an item carries are read for logging only.
\<close>

record batchItem =
  ts :: string
  row :: movement

text \<open>
  \<^verbatim>\<open>Date.parse\<close> is a built-in, so it is the parameter \<open>Date_parse\<close>: the epoch time of
  a text, or \<open>None\<close> for \<^verbatim>\<open>NaN\<close> when the text is not a date. The comparator of the
  batch sort is \<^verbatim>\<open>ta - tb\<close>, which is \<^verbatim>\<open>NaN\<close> as soon as one side is.
\<close>

definition timeOf :: "(string \<Rightarrow> int option) \<Rightarrow> batchItem \<Rightarrow> int option" where
  "timeOf Date_parse a = (if ts a \<noteq> [] then Date_parse (ts a) else Some 0)"

definition compareTs :: "(string \<Rightarrow> int option) \<Rightarrow> batchItem \<Rightarrow> batchItem \<Rightarrow> int option" where
  "compareTs Date_parse a b =
     (case (timeOf Date_parse a, timeOf Date_parse b) of
        (Some ta, Some tb) \<Rightarrow> Some (ta - tb)
      | _ \<Rightarrow> None)"

text \<open>
  \<^verbatim>\<open>Array.prototype.sort\<close> with a comparator. ECMAScript reads a \<^verbatim>\<open>NaN\<close> result of the
  comparator as \<^verbatim>\<open>+0\<close> and requires the sort to be stable; it is modelled as the stable
  insertion sort. When the comparator is a consistent order every conforming sort gives
  this result; when it is not, the standard leaves the order to the implementation.
\<close>

definition sortCompare :: "('a \<Rightarrow> 'a \<Rightarrow> int option) \<Rightarrow> 'a \<Rightarrow> 'a \<Rightarrow> int" where
  "sortCompare comparefn x y = (case comparefn x y of None \<Rightarrow> 0 | Some v \<Rightarrow> v)"

fun insertSorted :: "('a \<Rightarrow> 'a \<Rightarrow> int option) \<Rightarrow> 'a \<Rightarrow> 'a list \<Rightarrow> 'a list" where
  "insertSorted comparefn x [] = [x]"
| "insertSorted comparefn x (y # ys) =
     (if sortCompare comparefn x y \<le> 0 then x # y # ys
      else y # insertSorted comparefn x ys)"

definition js_sort :: "('a \<Rightarrow> 'a \<Rightarrow> int option) \<Rightarrow> 'a list \<Rightarrow> 'a list" where
  "js_sort comparefn xs = foldr (insertSorted comparefn) xs []"

text \<open>The \<^verbatim>\<open>forEach\<close> of the batch: the first insert that throws ends it, and the rows
  added before it stay.\<close>

fun addEach :: "movement list \<Rightarrow> sheet \<Rightarrow> unit outcome" where
  "addEach [] s = (Inr (), s)"
| "addEach (r # rs) s =
     (case addMovement r s of
        (Inl e, s') \<Rightarrow> (Inl e, s')
      | (Inr u, s') \<Rightarrow> addEach rs s')"

definition addMovementsBatch ::
  "(string \<Rightarrow> int option) \<Rightarrow> batchItem list \<Rightarrow> sheet \<Rightarrow> unit outcome" where
  "addMovementsBatch Date_parse movements s =
     (let sortedMovements = js_sort (compareTs Date_parse) movements
      in addEach (map row sortedMovements) s)"

section \<open>Ingestion\<close>

text \<open>
  \<^verbatim>\<open>Database.getExistingSourceIds\<close>: the truthy source ids, of the rows of the given
  source when one is given (\<^verbatim>\<open>null\<close> and the empty text count as no source).
\<close>

definition getExistingSourceIds :: "string option \<Rightarrow> sheet \<Rightarrow> string set" where
  "getExistingSourceIds source s =
     (if getLastRow s > 1 then
        (case source of
           None \<Rightarrow> set (filter (\<lambda>v. v \<noteq> []) (map SOURCE_ID s))
         | Some src \<Rightarrow>
             if src \<noteq> [] then
               SOURCE_ID ` set (filter (\<lambda>movement. SOURCE movement = src \<and>
                                                    SOURCE_ID movement \<noteq> [])
                                  (getAllMovements s))
             else set (filter (\<lambda>v. v \<noteq> []) (map SOURCE_ID s)))
      else {})"

text \<open>\<^verbatim>\<open>Database.getExistingAccountingSystemIds\<close>: the truthy accounting-system ids,
  each as its text.\<close>

definition getExistingAccountingSystemIds :: "sheet \<Rightarrow> string set" where
  "getExistingAccountingSystemIds s =
     (if getLastRow s > 1 then
        set (concat (map (\<lambda>movement.
               case ACCOUNTING_SYSTEM_ID movement of
                 None \<Rightarrow> []
               | Some v \<Rightarrow> if v \<noteq> 0 then [toString v] else []) s))
      else {})"

text \<open>
  A transaction as the banking API returns it: of its fields the pipeline itself reads the
  id and the two times (empty when absent).
\<close>

record monzo_transaction =
  id' :: string
  settled :: string
  created :: string

text \<open>
  \<^verbatim>\<open>ExpenseTracker.createMonzoMovementRow\<close>. \<^verbatim>\<open>MonzoService.convertTransactionToMovement\<close>
  and \<^verbatim>\<open>CurrencyConversionService.getAllCurrencyValues\<close> are not among the sources and
  are parameters. The converter's result is given as the row of the fields the code copies
  from it (the timestamp as the \<^verbatim>\<open>Date\<close> made from it), \<open>None\<close> for \<^verbatim>\<open>null\<close>. An
  error thrown by either is caught and gives \<^verbatim>\<open>null\<close>; the code sets the three values
  and the source column itself.
\<close>

definition createMonzoMovementRow ::
  "(monzo_transaction \<Rightarrow> int \<Rightarrow> (error + movement option)) \<Rightarrow>
   (rat \<Rightarrow> string \<Rightarrow> error + currency_values) \<Rightarrow> monzo_transaction \<Rightarrow> int \<Rightarrow> movement option" where
  "createMonzoMovementRow convertTransactionToMovement getAllCurrencyValues transaction nextId =
     (case convertTransactionToMovement transaction nextId of
        Inl e \<Rightarrow> None
      | Inr None \<Rightarrow> None
      | Inr (Some movement) \<Rightarrow>
          (case getAllCurrencyValues (AMOUNT movement) (CURRENCY movement) of
             Inl e \<Rightarrow> None
           | Inr currencyValues \<Rightarrow>
               Some (movement\<lparr>CLP_VALUE := clpValue currencyValues,
                              USD_VALUE := usdValue currencyValues,
                              GBP_VALUE := gbpValue currencyValues,
                              SOURCE := SOURCES_MONZO\<rparr>)))"

text \<open>The loop that builds the batch: \<^verbatim>\<open>nextId\<close> is read from the sheet once, before
  the loop, and counted up for every row made.\<close>

fun monzoBatch ::
  "(monzo_transaction \<Rightarrow> int \<Rightarrow> movement option) \<Rightarrow> monzo_transaction list \<Rightarrow> int
     \<Rightarrow> batchItem list" where
  "monzoBatch createRow [] nextId = []"
| "monzoBatch createRow (transaction # rest) nextId =
     (case createRow transaction nextId of
        None \<Rightarrow> monzoBatch createRow rest nextId
      | Some movementRow \<Rightarrow>
          \<lparr>ts = (if settled transaction \<noteq> [] then settled transaction
                  else created transaction),
           row = movementRow\<rparr> # monzoBatch createRow rest (nextId + 1))"

text \<open>
  \<^verbatim>\<open>ExpenseTracker.processMonzoTransactions\<close>, from the connection test on: the result
  of the test and the transactions fetched are parameters.
\<close>

definition processMonzoTransactions ::
  "(string \<Rightarrow> int option) \<Rightarrow>
   (monzo_transaction \<Rightarrow> int \<Rightarrow> (error + movement option)) \<Rightarrow>
   (rat \<Rightarrow> string \<Rightarrow> error + currency_values) \<Rightarrow>
   bool \<Rightarrow> monzo_transaction list \<Rightarrow> sheet \<Rightarrow> unit outcome" where
  "processMonzoTransactions Date_parse convertTransactionToMovement getAllCurrencyValues
     connectionTest transactions s =
     (if \<not> connectionTest then (Inr (), s)
      else
       (let existingMonzoIds = getExistingSourceIds (Some SOURCES_MONZO) s
        in if length transactions = 0 then (Inr (), s)
           else
            (let newTransactions =
                   filter (\<lambda>transaction. \<not> (id' transaction \<in> existingMonzoIds)) transactions
             in if length newTransactions = 0 then (Inr (), s)
                else
                 (let nextId = getNextId s;
                      batchMovements =
                        monzoBatch
                          (createMonzoMovementRow convertTransactionToMovement
                             getAllCurrencyValues)
                          newTransactions nextId
                  in if length batchMovements > 0
                     then addMovementsBatch Date_parse batchMovements s
                     else (Inr (), s)))))"

text \<open>A movement as the bill-splitting service gives it; \<^verbatim>\<open>paidBy\<close> and \<^verbatim>\<open>owedBy\<close>
  are \<open>None\<close> when undefined.\<close>

record splitwise_movement = amountData +
  date :: string
  paidBy :: "string option"
  owedBy :: "string option"
  description :: string
  category' :: string
  splitwiseId :: int

text \<open>
  \<^verbatim>\<open>ExpenseTracker.createSplitwiseMovementRow\<close>. \<^verbatim>\<open>toISOString\<close> of an invalid date
  throws a \<^verbatim>\<open>RangeError\<close>; an error of the conversion service is not caught here.
\<close>

definition createSplitwiseMovementRow ::
  "(string \<Rightarrow> int option) \<Rightarrow> (rat \<Rightarrow> string \<Rightarrow> error + currency_values) \<Rightarrow>
   splitwise_movement \<Rightarrow> int \<Rightarrow> error + movement" where
  "createSplitwiseMovementRow Date_parse getAllCurrencyValues splitwiseMovement nextId =
     (case Date_parse (date splitwiseMovement) of
        None \<Rightarrow> Inl RangeError
      | Some isoTime \<Rightarrow>
          (let isCreditMovement = (paidBy splitwiseMovement \<noteq> None);
               isDebitMovement = (owedBy splitwiseMovement \<noteq> None);
               direction =
                 (if isCreditMovement then DIRECTIONS_OUTFLOW
                  else if isDebitMovement then DIRECTIONS_NEUTRAL
                  else DIRECTIONS_OUTFLOW);
               type =
                 (if isCreditMovement then MOVEMENT_TYPES_CREDIT
                  else if isDebitMovement then MOVEMENT_TYPES_DEBIT_REPAYMENT
                  else MOVEMENT_TYPES_EXPENSE)
           in case getAllCurrencyValues (amount splitwiseMovement)
                     (currency splitwiseMovement) of
                Inl e \<Rightarrow> Inl e
              | Inr currencyValues \<Rightarrow>
                  Inr \<lparr>TIMESTAMP = Some isoTime,
                       DIRECTION = direction,
                       TYPE' = type,
                       AMOUNT = amount splitwiseMovement,
                       CURRENCY = currency splitwiseMovement,
                       SOURCE_DESCRIPTION = description splitwiseMovement,
                       USER_DESCRIPTION = [],
                       COMMENT = [],
                       AI_COMMENT = [],
                       CATEGORY = category' splitwiseMovement,
                       STATUS = [],
                       SETTLED_MOVEMENT_ID = None,
                       CLP_VALUE = clpValue currencyValues,
                       USD_VALUE = usdValue currencyValues,
                       GBP_VALUE = gbpValue currencyValues,
                       ORIGINAL_AMOUNT = None,
                       ID = nextId,
                       SOURCE = SOURCES_SPLITWISE,
                       SOURCE_ID = [],
                       ACCOUNTING_SYSTEM_ID = Some (splitwiseId splitwiseMovement)\<rparr>))"

fun splitwiseBatch ::
  "(splitwise_movement \<Rightarrow> int \<Rightarrow> error + movement) \<Rightarrow> splitwise_movement list \<Rightarrow> int
     \<Rightarrow> error + batchItem list" where
  "splitwiseBatch createRow [] nextId = Inr []"
| "splitwiseBatch createRow (movement # rest) nextId =
     (case createRow movement nextId of
        Inl e \<Rightarrow> Inl e
      | Inr movementRow \<Rightarrow>
          (case splitwiseBatch createRow rest (nextId + 1) of
             Inl e \<Rightarrow> Inl e
           | Inr items \<Rightarrow> Inr (\<lparr>ts = date movement, row = movementRow\<rparr> # items)))"

text \<open>
  \<^verbatim>\<open>ExpenseTracker.processSplitwiseMovements\<close>, from the connection test on: the result
  of the test and the two lists fetched are parameters. An error is logged and thrown
  again.
\<close>

definition processSplitwiseMovements ::
  "(string \<Rightarrow> int option) \<Rightarrow> (rat \<Rightarrow> string \<Rightarrow> error + currency_values) \<Rightarrow>
   bool \<Rightarrow> splitwise_movement list \<Rightarrow> splitwise_movement list \<Rightarrow> sheet \<Rightarrow> unit outcome" where
  "processSplitwiseMovements Date_parse getAllCurrencyValues connectionTest
     creditMovements debitMovements s =
     (if \<not> connectionTest then (Inr (), s)
      else
       (let existingAccountingSystemIds = getExistingAccountingSystemIds s;
            allMovements = creditMovements @ debitMovements
        in if length allMovements = 0 then (Inr (), s)
           else
            (let newMovements =
                   filter (\<lambda>movement.
                             \<not> (toString (splitwiseId movement) \<in> existingAccountingSystemIds))
                     allMovements
             in if length newMovements = 0 then (Inr (), s)
                else
                 (let nextId = getNextId s
                  in case splitwiseBatch
                            (createSplitwiseMovementRow Date_parse getAllCurrencyValues)
                            newMovements nextId of
                       Inl e \<Rightarrow> (Inl e, s)
                     | Inr batchMovements \<Rightarrow>
                         if length batchMovements > 0
                         then addMovementsBatch Date_parse batchMovements s
                         else (Inr (), s)))))"

section \<open>Classification pass\<close>

text \<open>\<^verbatim>\<open>String.prototype.trim\<close> on the white space of ASCII.\<close>

definition isWhiteSpace :: "char \<Rightarrow> bool" where
  "isWhiteSpace c = (c \<in> set [CHR '' '', CHR 0x09, CHR 0x0A, CHR 0x0B, CHR 0x0C, CHR 0x0D])"

definition trim :: "string \<Rightarrow> string" where
  "trim t = rev (dropWhile isWhiteSpace (rev (dropWhile isWhiteSpace t)))"

definition hasUserDescription :: "movement \<Rightarrow> bool" where
  "hasUserDescription movement =
     (USER_DESCRIPTION movement \<noteq> [] \<and> trim (USER_DESCRIPTION movement) \<noteq> [])"

definition hasNoCategory :: "movement \<Rightarrow> bool" where
  "hasNoCategory movement = (CATEGORY movement = [] \<or> trim (CATEGORY movement) = [])"

definition getMovementsNeedingCategoryAnalysis :: "sheet \<Rightarrow> movement list" where
  "getMovementsNeedingCategoryAnalysis s =
     filter (\<lambda>movement. hasUserDescription movement \<and> hasNoCategory movement)
       (getAllMovements s)"

record movementData = amountData +
  sourceDescription :: string
  type' :: string
  direction :: string

text \<open>The result of the classifier's analysis, as \<^verbatim>\<open>parseCategoryAnalysisResponse\<close>
  returns it: the split information and three more fields.\<close>

record analysisResult = splitInfo +
  category :: "string option"
  needs_split :: bool
  split_type :: "string option"

definition truthyText :: "string option \<Rightarrow> bool" where
  "truthyText v = (case v of None \<Rightarrow> False | Some t \<Rightarrow> t \<noteq> [])"

definition truthyId :: "int option \<Rightarrow> bool" where
  "truthyId v = (case v of None \<Rightarrow> False | Some i \<Rightarrow> i \<noteq> 0)"

fun join :: "string \<Rightarrow> string list \<Rightarrow> string" where
  "join sep [] = []"
| "join sep [x] = x"
| "join sep (x # y # ys) = x @ sep @ join sep (y # ys)"

definition updateMovementWithAnalysis :: "int \<Rightarrow> analysisResult \<Rightarrow> sheet \<Rightarrow> sheet" where
  "updateMovementWithAnalysis movementId analysisResult s =
     (case findIndex (\<lambda>movement. ID movement = movementId) (getAllMovements s) of
        None \<Rightarrow> s
      | Some movementRowIndex \<Rightarrow>
          (let sheetRowIndex = movementRowIndex + 2;
               s1 = setValues sheetRowIndex
                      (\<lambda>r. r\<lparr>CATEGORY := cellText (category analysisResult)\<rparr>) s
           in if \<not> needs_split analysisResult \<and> truthyText (clean_description analysisResult)
              then setValues sheetRowIndex
                     (\<lambda>r. r\<lparr>USER_DESCRIPTION := cellText (clean_description analysisResult),
                           COMMENT := []\<rparr>) s1
              else s1))"

text \<open>
  The state of one run of \<^verbatim>\<open>ExpenseTracker.processUncategorizedMovements\<close>: the sheet,
  the three counters, and (kept for the proofs, not by the code) the movements handed to
  \<^verbatim>\<open>processDebitRepaymentSettlement\<close>, in order.
\<close>

record analysisRun =
  sheetNow :: sheet
  analyzedCount :: nat
  splitCount :: nat
  errorCount :: nat
  settlementCalls :: "movement list"

definition settleIfRepayment ::
  "(repaymentData \<Rightarrow> movement list \<Rightarrow> int option) \<Rightarrow> int \<Rightarrow> movement \<Rightarrow> analysisRun
     \<Rightarrow> analysisRun" where
  "settleIfRepayment matchDebitRepayment movementId movement st =
     (if TYPE' movement = MOVEMENT_TYPES_DEBIT_REPAYMENT
      then st\<lparr>sheetNow :=
                 processDebitRepaymentSettlement matchDebitRepayment movementId movement
                   (sheetNow st),
               settlementCalls := settlementCalls st @ [movement]\<rparr>
      else st)"

text \<open>
  The body of the loop, for one movement of the list read at the start of the run. The
  classifier is the parameter \<^verbatim>\<open>analyzeCategory\<close> (\<open>None\<close> when the analysis fails or
  its result is discarded). An error thrown in the body is caught by the loop: it counts
  as an error and the rest of the body, the settlement included, is skipped.
\<close>

definition analyzeMovement ::
  "(rat \<Rightarrow> rat \<Rightarrow> currency_values \<Rightarrow> currency_values) \<Rightarrow>
   (string \<Rightarrow> movementData \<Rightarrow> analysisResult option) \<Rightarrow>
   (repaymentData \<Rightarrow> movement list \<Rightarrow> int option) \<Rightarrow> movement \<Rightarrow> analysisRun \<Rightarrow> analysisRun" where
  "analyzeMovement splitCurrencyValues analyzeCategory matchDebitRepayment movement st =
     (let movementId = ID movement;
          userDescription = USER_DESCRIPTION movement;
          comment = COMMENT movement;
          movementData =
            \<lparr>amount = AMOUNT movement,
             currency = CURRENCY movement,
             sourceDescription = SOURCE_DESCRIPTION movement,
             type' = TYPE' movement,
             direction = DIRECTION movement\<rparr>;
          fullDescription = join '' '' (filter (\<lambda>t. t \<noteq> []) [userDescription, comment])
      in case analyzeCategory fullDescription movementData of
           None \<Rightarrow> st\<lparr>errorCount := errorCount st + 1\<rparr>
         | Some analysisResult \<Rightarrow>
             if needs_split analysisResult \<and> split_type analysisResult = Some ''EXPENSE''
             then
              (let splitInfo =
                     \<lparr>split_amount = split_amount analysisResult,
                      split_category = None,
                      split_description = split_description analysisResult,
                      clean_description = clean_description analysisResult\<rparr>
               in case splitExpenseForRecategorization splitCurrencyValues movementId
                         splitInfo (sheetNow st) of
                    (Inl e, s') \<Rightarrow> st\<lparr>sheetNow := s', errorCount := errorCount st + 1\<rparr>
                  | (Inr newMovementId, s') \<Rightarrow>
                      settleIfRepayment matchDebitRepayment movementId movement
                        ((if truthyId newMovementId
                          then st\<lparr>splitCount := splitCount st + 1\<rparr>
                          else st\<lparr>errorCount := errorCount st + 1\<rparr>)
                           \<lparr>sheetNow := s', analyzedCount := analyzedCount st + 1\<rparr>))
             else
              (let s1 = updateMovementWithAnalysis movementId analysisResult (sheetNow st);
                   st1 = st\<lparr>sheetNow := s1, analyzedCount := analyzedCount st + 1\<rparr>
               in if needs_split analysisResult
                  then
                   (let splitInfo =
                          \<lparr>split_amount = split_amount analysisResult,
                           split_category = split_category analysisResult,
                           split_description = split_description analysisResult,
                           clean_description = clean_description analysisResult\<rparr>
                    in case splitMovement splitCurrencyValues movementId splitInfo s1 of
                         (Inl e, s') \<Rightarrow> st1\<lparr>sheetNow := s', errorCount := errorCount st1 + 1\<rparr>
                       | (Inr newDebitMovementId, s') \<Rightarrow>
                           settleIfRepayment matchDebitRepayment movementId movement
                             ((if truthyId newDebitMovementId
                               then st1\<lparr>splitCount := splitCount st1 + 1\<rparr>
                               else st1\<lparr>errorCount := errorCount st1 + 1\<rparr>)
                                \<lparr>sheetNow := s'\<rparr>))
                  else settleIfRepayment matchDebitRepayment movementId movement st1))"

definition processUncategorizedMovements ::
  "(rat \<Rightarrow> rat \<Rightarrow> currency_values \<Rightarrow> currency_values) \<Rightarrow>
   (string \<Rightarrow> movementData \<Rightarrow> analysisResult option) \<Rightarrow>
   (repaymentData \<Rightarrow> movement list \<Rightarrow> int option) \<Rightarrow> sheet \<Rightarrow> analysisRun" where
  "processUncategorizedMovements splitCurrencyValues analyzeCategory matchDebitRepayment s =
     (let uncategorizedMovements = getMovementsNeedingCategoryAnalysis s
      in foldl (\<lambda>st movement.
                  analyzeMovement splitCurrencyValues analyzeCategory matchDebitRepayment
                    movement st)
           \<lparr>sheetNow = s, analyzedCount = 0, splitCount = 0, errorCount = 0,
            settlementCalls = []\<rparr>
           uncategorizedMovements)"

section \<open>Notions of the statements\<close>

text \<open>
  The idempotency keys of a row: the pair of source and source id, here for the banking
  source, and the accounting-system id of the bill-splitting source.
\<close>

definition hasMonzoKey :: "string \<Rightarrow> movement \<Rightarrow> bool" where
  "hasMonzoKey k r = (SOURCE r = SOURCES_MONZO \<and> SOURCE_ID r = k)"

definition hasAccountingKey :: "int \<Rightarrow> movement \<Rightarrow> bool" where
  "hasAccountingKey k r = (ACCOUNTING_SYSTEM_ID r = Some k)"

text \<open>
  What the pipeline needs of the absent converter of banking transactions: the movement it
  returns carries the id of the transaction as its source id and the id it was given.
\<close>

definition recordsTransaction ::
  "(monzo_transaction \<Rightarrow> int \<Rightarrow> (error + movement option)) \<Rightarrow> bool" where
  "recordsTransaction convertTransactionToMovement =
     (\<forall>transaction nextId movement.
        convertTransactionToMovement transaction nextId = Inr (Some movement) \<longrightarrow>
        SOURCE_ID movement = id' transaction \<and> ID movement = nextId)"

text \<open>The time a batch item is sorted by when its timestamp is missing or parses: the
  epoch time, 0 for a missing timestamp.\<close>

definition timeKey :: "(string \<Rightarrow> int option) \<Rightarrow> batchItem \<Rightarrow> int" where
  "timeKey Date_parse a = (case timeOf Date_parse a of Some t \<Rightarrow> t | None \<Rightarrow> 0)"

text \<open>What the classification pass asks the classifier for a movement: the analysis of
  its joined description and comment, with the context the pass builds.\<close>

definition analysisOf ::
  "(string \<Rightarrow> movementData \<Rightarrow> analysisResult option) \<Rightarrow> movement \<Rightarrow> analysisResult option" where
  "analysisOf analyzeCategory movement =
     analyzeCategory
       (join '' '' (filter (\<lambda>t. t \<noteq> []) [USER_DESCRIPTION movement, COMMENT movement]))
       \<lparr>amount = AMOUNT movement,
        currency = CURRENCY movement,
        sourceDescription = SOURCE_DESCRIPTION movement,
        type' = TYPE' movement,
        direction = DIRECTION movement\<rparr>"

text \<open>
  Following the specification's words for \<^verbatim>\<open>nextId\<close>, "the smallest unused id": the
  least positive id that no row has. Among the ids from 1 to one more than the number of
  rows at least one is unused.
\<close>

definition smallestUnusedId :: "sheet \<Rightarrow> int" where
  "smallestUnusedId s =
     (case find (\<lambda>i. \<not> idExists i s) (map int [1..<length s + 2]) of
        Some i \<Rightarrow> i
      | None \<Rightarrow> int (length s) + 2)"

text \<open>
  The three currency values of a row, as the object \<^verbatim>\<open>originalCurrencyValues\<close> that the
  splits hand to the splitter.
\<close>

definition valuesOf :: "movement \<Rightarrow> currency_values" where
  "valuesOf m = \<lparr>clpValue = CLP_VALUE m, usdValue = USD_VALUE m, gbpValue = GBP_VALUE m\<rparr>"

text \<open>
  The error of one rounding is at most half the spacing of the doubles around the number
  rounded, which is at most \<open>\<bar>x\<bar> / 2\<^sup>5\<^sup>3\<close>, and \<open>2\<^sup>-\<^sup>1\<^sup>0\<^sup>7\<^sup>5\<close> for a number below the
  smallest normal double \<open>2\<^sup>-\<^sup>1\<^sup>0\<^sup>2\<^sup>2\<close>.
\<close>

definition minNormal :: rat where
  "minNormal = 2 powi (- 1022)"

definition halfUlp :: "rat \<Rightarrow> rat" where
  "halfUlp x = max \<bar>x\<bar> minNormal / 2 ^ 53"

text \<open>
  What a split leaves of a row \<open>original\<close> with amount \<open>A\<close>, in the row \<open>part\<close> that gets the
  split amount \<open>sa\<close> and the row \<open>rest\<close> that gets the remainder. The amounts are \<open>sa\<close> and the
  double nearest to \<open>A - sa\<close>, and sum to \<open>A\<close> up to the error of that rounding. Each of the
  three currency values of the two rows is the original value times the rounded ratio of
  the row's amount to \<open>A\<close>, rounded (not a number where one of the two roundings
  overflows), and the two products sum to the original value up to the errors of the five
  roundings; where the original value is not a number, or \<open>A\<close> is 0, both are not numbers.
\<close>

definition proportionalHalves :: "movement \<Rightarrow> rat \<Rightarrow> movement \<Rightarrow> movement \<Rightarrow> bool" where
  "proportionalHalves original sa part rest =
     (let A = AMOUNT original; remaining = toDouble (A - sa)
      in AMOUNT part = sa \<and> AMOUNT rest = remaining \<and>
         \<bar>AMOUNT part + AMOUNT rest - A\<bar> \<le> halfUlp (A - sa) \<and>
         (\<forall>field \<in> set [clpValue, usdValue, gbpValue :: currency_values \<Rightarrow> cvalue].
            (case field (valuesOf original) of
               Num c \<Rightarrow>
                 if A = 0 then field (valuesOf part) = NaN \<and> field (valuesOf rest) = NaN
                 else
                  (let r1 = toDouble (sa / A); r2 = toDouble (remaining / A);
                       p1 = toDouble (c * r1); p2 = toDouble (c * r2)
                   in field (valuesOf part)
                        = (if finiteDouble r1 \<and> finiteDouble p1 then Num p1 else NaN) \<and>
                      field (valuesOf rest)
                        = (if finiteDouble r2 \<and> finiteDouble p2 then Num p2 else NaN) \<and>
                      \<bar>p1 + p2 - c\<bar>
                        \<le> \<bar>c\<bar> * (halfUlp (sa / A) + halfUlp (remaining / A)
                                   + halfUlp (A - sa) / \<bar>A\<bar>)
                           + halfUlp (c * r1) + halfUlp (c * r2))
             | Text t \<Rightarrow> field (valuesOf part) = NaN \<and> field (valuesOf rest) = NaN
             | NaN \<Rightarrow> field (valuesOf part) = NaN \<and> field (valuesOf rest) = NaN)))"

section \<open>Example data\<close>

text \<open>A row with the given id and amount, in USD, for the concrete instances below.\<close>

definition exampleRow :: "int \<Rightarrow> rat \<Rightarrow> movement" where
  "exampleRow i a =
     \<lparr>TIMESTAMP = Some 0,
      DIRECTION = DIRECTIONS_OUTFLOW,
      TYPE' = MOVEMENT_TYPES_EXPENSE,
      AMOUNT = a,
      CURRENCY = ''USD'',
      SOURCE_DESCRIPTION = ''card payment'',
      USER_DESCRIPTION = ''dinner'',
      COMMENT = [],
      AI_COMMENT = [],
      CATEGORY = [],
      STATUS = [],
      SETTLED_MOVEMENT_ID = None,
      CLP_VALUE = Num (a * 900),
      USD_VALUE = Num a,
      GBP_VALUE = Num (a * 3 / 4),
      ORIGINAL_AMOUNT = None,
      ID = i,
      SOURCE = ''gmail'',
      SOURCE_ID = ''msg'',
      ACCOUNTING_SYSTEM_ID = None\<rparr>"

definition exampleSplit :: "rat \<Rightarrow> splitInfo" where
  "exampleSplit a =
     \<lparr>split_amount = Some a,
      split_category = Some ''restaurants'',
      split_description = Some ''shared part'',
      clean_description = Some ''my part''\<rparr>"

text \<open>A row whose amount is a decimal with cents, with the CLP value given and the other
  two values doubles as well.\<close>

definition exampleDecimalRow :: "int \<Rightarrow> rat \<Rightarrow> rat \<Rightarrow> movement" where
  "exampleDecimalRow i a clp =
     (exampleRow i a)
       \<lparr>CLP_VALUE := Num clp, USD_VALUE := Num a, GBP_VALUE := Num (toDouble (a * 3 / 4))\<rparr>"

text \<open>A pending debit of 100 with id 1, and a repayment of the given amount with id 2.\<close>

definition exampleDebit :: movement where
  "exampleDebit =
     (exampleRow 1 100)
       \<lparr>TYPE' := MOVEMENT_TYPES_DEBIT, STATUS := STATUS_PENDING_DIRECT_SETTLEMENT\<rparr>"

definition exampleRepayment :: "rat \<Rightarrow> movement" where
  "exampleRepayment a = (exampleRow 2 a)\<lparr>TYPE' := MOVEMENT_TYPES_DEBIT_REPAYMENT\<rparr>"

text \<open>
  A row whose CLP value is the error text of a failed conversion, a recogniser of that
  text, and a conversion that succeeds, standing for the absent conversion service.
\<close>

definition exampleFailedRow :: movement where
  "exampleFailedRow = (exampleRow 1 100)\<lparr>CLP_VALUE := Text ''#NUM!''\<rparr>"

definition exampleIsFailed :: "cvalue \<Rightarrow> bool" where
  "exampleIsFailed v = (v = Text ''#NUM!'')"

definition exampleFix :: "rat \<Rightarrow> string \<Rightarrow> currency_values option" where
  "exampleFix a c = Some \<lparr>clpValue = Num (a * 900), usdValue = Num a, gbpValue = Num (a * 3 / 4)\<rparr>"

text \<open>A parser that knows three times, \<^verbatim>\<open>T1\<close> before \<^verbatim>\<open>T2\<close> before \<^verbatim>\<open>T3\<close>, and
  takes any other text for no date.\<close>

definition exampleParse :: "string \<Rightarrow> int option" where
  "exampleParse t =
     (if t = ''T1'' then Some 1 else if t = ''T2'' then Some 2
      else if t = ''T3'' then Some 3 else None)"

text \<open>A converter and a conversion service for the concrete instances, a transaction and
  a movement of the bill-splitting service.\<close>

definition exampleConvert :: "monzo_transaction \<Rightarrow> int \<Rightarrow> (error + movement option)" where
  "exampleConvert transaction nextId =
     Inr (Some ((exampleRow nextId 12)\<lparr>SOURCE_ID := id' transaction\<rparr>))"

definition exampleValues :: "rat \<Rightarrow> string \<Rightarrow> error + currency_values" where
  "exampleValues a c =
     Inr \<lparr>clpValue = Num (a * 900), usdValue = Num a, gbpValue = Num (a * 3 / 4)\<rparr>"

definition exampleTransaction :: monzo_transaction where
  "exampleTransaction = \<lparr>id' = ''tx_1'', settled = ''T2'', created = ''T1''\<rparr>"

definition exampleSplitwise :: splitwise_movement where
  "exampleSplitwise =
     \<lparr>amount = 20, currency = ''USD'', date = ''T1'', paidBy = Some ''Ana'', owedBy = None,
      description = ''lunch'', category' = ''restaurants'', splitwiseId = 77\<rparr>"

text \<open>
  A sheet with one movement of 0.21, and a sheet with one movement of 2.11 whose CLP value
  is 1899: the amounts are the doubles that the decimals denote.
\<close>

definition exampleCents :: sheet where
  "exampleCents = [exampleDecimalRow 1 (toDouble (21 / 100)) 189]"

definition examplePesos :: sheet where
  "examplePesos = [exampleDecimalRow 1 (toDouble (211 / 100)) 1899]"

text \<open>A matcher that answers with the given id, a pending debit of the given amount with
  id 1 and a repayment of the given amount with id 2.\<close>

definition exampleMatcher :: "int \<Rightarrow> repaymentData \<Rightarrow> movement list \<Rightarrow> int option" where
  "exampleMatcher i d p = Some i"

definition exampleDecimalDebit :: "rat \<Rightarrow> movement" where
  "exampleDecimalDebit a =
     (exampleDecimalRow 1 a (toDouble (a * 900)))
       \<lparr>TYPE' := MOVEMENT_TYPES_DEBIT, STATUS := STATUS_PENDING_DIRECT_SETTLEMENT\<rparr>"

definition exampleDecimalRepayment :: "rat \<Rightarrow> movement" where
  "exampleDecimalRepayment a =
     (exampleDecimalRow 2 a (toDouble (a * 900)))
       \<lparr>TYPE' := MOVEMENT_TYPES_DEBIT_REPAYMENT\<rparr>"

text \<open>A classifier that always answers with a category and no split.\<close>

definition exampleAnalyze :: "string \<Rightarrow> movementData \<Rightarrow> analysisResult option" where
  "exampleAnalyze d m =
     Some \<lparr>split_amount = None, split_category = None, split_description = None,
           clean_description = Some ''dinner'', category = Some ''restaurants'',
           needs_split = False, split_type = None\<rparr>"

section \<open>Double arithmetic\<close>

text \<open>The rounding is determined by the binade of its argument and by the nearest
  multiple of the spacing there, which gives each concrete rounding by a comparison of
  numerals; its error is at most half the spacing; it is monotone.\<close>

lemma roundHalfEven_eqI:
  assumes "\<bar>y - of_int m\<bar> < 1 / 2 \<or> (\<bar>y - of_int m\<bar> = 1 / 2 \<and> even m)"
  shows "roundHalfEven y = m"
proof -
  consider (below) "of_int m \<le> y" "y - of_int m < 1 / 2"
    | (above) "y < of_int m" "of_int m - y < 1 / 2"
    | (tieup) "y = of_int m + 1 / 2" "even m"
    | (tiedown) "y = of_int m - 1 / 2" "even m"
    using assms by (cases "of_int m \<le> y") (auto simp: abs_if split: if_splits)
  then show ?thesis
  proof cases
    case below
    then have "\<lfloor>y\<rfloor> = m" by (intro floor_unique) auto
    with below show ?thesis by (simp add: roundHalfEven_def Let_def)
  next
    case above
    then have f: "\<lfloor>y\<rfloor> = m - 1" by (intro floor_unique) auto
    from above have "y - of_int (m - 1) > 1 / 2" by simp
    with f show ?thesis by (simp add: roundHalfEven_def Let_def)
  next
    case tieup
    then have "\<lfloor>y\<rfloor> = m" by (intro floor_unique) auto
    with tieup show ?thesis by (simp add: roundHalfEven_def Let_def)
  next
    case tiedown
    then have f: "\<lfloor>y\<rfloor> = m - 1" by (intro floor_unique) auto
    with tiedown show ?thesis by (simp add: roundHalfEven_def Let_def)
  qed
qed

lemma binade_bounds:
  assumes "x \<noteq> 0"
  shows "2 powi binade x \<le> \<bar>x\<bar> \<and> \<bar>x\<bar> < 2 powi (binade x + 1)"
proof (cases "1 \<le> \<bar>x\<bar>")
  case True
  let ?n = "nat \<lfloor>\<bar>x\<bar>\<rfloor>"
  let ?L = "floorlog 2 ?n"
  from True have n: "0 < ?n" by simp
  from floorlog_bounds[OF n, of 2] have b: "2 ^ (?L - 1) \<le> ?n" "?n < 2 ^ ?L" by simp_all
  from n have L: "0 < ?L" by (simp add: floorlog_def)
  have e: "binade x = int (?L - 1)" using True L by (simp add: binade_def)
  have fl: "of_int (int ?n) \<le> \<bar>x\<bar>" "\<bar>x\<bar> < of_int (int ?n + 1)"
    using True by (simp_all add: floor_le_iff) linarith+
  have lo: "(2::rat) ^ (?L - 1) \<le> of_int (int ?n)"
    using b(1) by (metis of_int_of_nat_eq of_nat_le_iff of_nat_numeral of_nat_power)
  have "int ?n + 1 \<le> 2 ^ ?L" using b(2) by (metis of_nat_less_iff of_nat_numeral of_nat_power zless_imp_add1_zle)
  then have hi: "of_int (int ?n + 1) \<le> (2::rat) ^ ?L"
    by (metis of_int_le_iff of_int_numeral of_int_power)
  have s: "int (?L - 1) + 1 = int ?L" using L by simp
  show ?thesis
    unfolding e s power_int_of_nat using lo hi fl by linarith
next
  case False
  let ?y = "1 / \<bar>x\<bar>"
  let ?m = "nat (\<lceil>?y\<rceil> - 1)"
  let ?L = "floorlog 2 ?m"
  from False assms have x: "0 < \<bar>x\<bar>" "\<bar>x\<bar> < 1" by simp_all
  from one_less_inverse[OF x] have y: "1 < ?y" by (simp add: inverse_eq_divide)
  then have c: "2 \<le> \<lceil>?y\<rceil>" by (simp add: le_ceiling_iff) 
  then have m: "0 < ?m" by simp
  from floorlog_bounds[OF m, of 2] have b: "2 ^ (?L - 1) \<le> ?m" "?m < 2 ^ ?L" by simp_all
  from m have L: "0 < ?L" by (simp add: floorlog_def)
  have e: "binade x = - int ?L" using False by (simp add: binade_def)
  have mi: "int ?m = \<lceil>?y\<rceil> - 1" using c by linarith
  have ylo: "of_int (int ?m) < ?y" unfolding mi using ceiling_correct[of ?y] by simp
  have yhi: "?y \<le> of_int (int ?m + 1)" unfolding mi using ceiling_correct[of ?y] by simp
  have lo: "(2::rat) ^ (?L - 1) \<le> of_int (int ?m)"
    using b(1) by (metis of_int_of_nat_eq of_nat_le_iff of_nat_numeral of_nat_power)
  have "int ?m + 1 \<le> 2 ^ ?L" using b(2) by (metis of_nat_less_iff of_nat_numeral of_nat_power zless_imp_add1_zle)
  then have hi: "of_int (int ?m + 1) \<le> (2::rat) ^ ?L"
    by (metis of_int_le_iff of_int_numeral of_int_power)
  from lo ylo have A: "(2::rat) ^ (?L - 1) < 1 / \<bar>x\<bar>" by linarith
  from hi yhi have B: "1 / \<bar>x\<bar> \<le> (2::rat) ^ ?L" by linarith
  have p1: "2 powi (- int ?L) = 1 / (2::rat) ^ ?L"
    by (simp add: power_int_minus field_simps)
  have "- int ?L + 1 = - int (?L - 1)" using L by simp
  then have "(2::rat) powi (- int ?L + 1) = 2 powi (- int (?L - 1))" by (rule arg_cong)
  also have "\<dots> = 1 / (2::rat) ^ (?L - 1)"
    unfolding power_int_minus power_int_of_nat by (simp add: inverse_eq_divide)
  finally have p2: "2 powi (- int ?L + 1) = 1 / (2::rat) ^ (?L - 1)" .
  from B x have r1: "1 / (2::rat) ^ ?L \<le> \<bar>x\<bar>" by (simp add: field_simps)
  from A x have r2: "\<bar>x\<bar> < 1 / (2::rat) ^ (?L - 1)" by (simp add: field_simps)
  show ?thesis unfolding e p1 p2 using r1 r2 by simp
qed

lemma binade_eqI:
  assumes "2 powi e \<le> \<bar>x\<bar>" and "\<bar>x\<bar> < 2 powi (e + 1)"
  shows "binade x = e"
proof -
  have "(0::rat) < 2 powi e" by simp
  with assms(1) have "0 < \<bar>x\<bar>" by linarith
  then have x: "x \<noteq> 0" by simp
  from binade_bounds[OF x] have b: "2 powi binade x \<le> \<bar>x\<bar>" "\<bar>x\<bar> < 2 powi (binade x + 1)"
    by simp_all
  show ?thesis
  proof (rule ccontr)
    assume "binade x \<noteq> e"
    then consider "binade x + 1 \<le> e" | "e + 1 \<le> binade x" by linarith
    then show False
    proof cases
      case 1
      then have "(2::rat) powi (binade x + 1) \<le> 2 powi e" by (intro power_int_increasing) simp_all
      with b(2) assms(1) show False by linarith
    next
      case 2
      then have "(2::rat) powi (e + 1) \<le> 2 powi binade x" by (intro power_int_increasing) simp_all
      with b(1) assms(2) show False by linarith
    qed
  qed
qed

lemma toDouble_eqI:
  assumes "2 powi e \<le> \<bar>x\<bar>" and "\<bar>x\<bar> < 2 powi (e + 1)" and "- 1022 \<le> e"
    and "\<bar>x / 2 powi (e - 52) - of_int m\<bar> < 1 / 2
         \<or> (\<bar>x / 2 powi (e - 52) - of_int m\<bar> = 1 / 2 \<and> even m)"
  shows "toDouble x = of_int m * 2 powi (e - 52)"
proof -
  have "(0::rat) < 2 powi e" by simp
  with assms(1) have "0 < \<bar>x\<bar>" by linarith
  then have x: "x \<noteq> 0" by simp
  from binade_eqI[OF assms(1,2)] assms(3) have "max (binade x) (- 1022) = e" by simp
  with x roundHalfEven_eqI[OF assms(4)] show ?thesis by (simp add: toDouble_def Let_def)
qed


lemma minNormal_pos: "0 < minNormal"
  unfolding minNormal_def by (rule zero_less_power_int) simp

lemma halfUlp_nonneg: "0 \<le> halfUlp x"
  using minNormal_pos by (simp add: halfUlp_def max_def)

lemma roundHalfEven_spec:
  "\<bar>y - of_int (roundHalfEven y)\<bar> < 1 / 2
   \<or> (\<bar>y - of_int (roundHalfEven y)\<bar> = 1 / 2 \<and> even (roundHalfEven y))"
proof -
  let ?f = "\<lfloor>y\<rfloor>"
  have f: "of_int ?f \<le> y" "y < of_int ?f + 1" by linarith+
  consider "y - of_int ?f < 1 / 2" | "y - of_int ?f > 1 / 2" | "y - of_int ?f = 1 / 2"
    by linarith
  then show ?thesis
  proof cases
    case 1
    then have "roundHalfEven y = ?f" by (simp add: roundHalfEven_def Let_def)
    with 1 f show ?thesis by simp
  next
    case 2
    then have "roundHalfEven y = ?f + 1" by (simp add: roundHalfEven_def Let_def)
    with 2 f show ?thesis by simp
  next
    case 3
    show ?thesis
    proof (cases "even ?f")
      case True
      with 3 have "roundHalfEven y = ?f" by (simp add: roundHalfEven_def Let_def)
      with 3 True show ?thesis by simp
    next
      case False
      with 3 have r: "roundHalfEven y = ?f + 1" by (simp add: roundHalfEven_def Let_def)
      from 3 have "\<bar>y - of_int (?f + 1)\<bar> = 1 / 2" by simp
      with r False show ?thesis by simp
    qed
  qed
qed

lemma roundHalfEven_error: "\<bar>of_int (roundHalfEven y) - y\<bar> \<le> 1 / 2"
  using roundHalfEven_spec[of y] by linarith

lemma roundHalfEven_of_int [simp]: "roundHalfEven (of_int n) = n"
  by (rule roundHalfEven_eqI) simp

lemma roundHalfEven_mono:
  assumes "y \<le> z"
  shows "roundHalfEven y \<le> roundHalfEven z"
proof (rule ccontr)
  assume "\<not> roundHalfEven y \<le> roundHalfEven z"
  then have "roundHalfEven z + 1 \<le> roundHalfEven y" by simp
  then have g: "(of_int (roundHalfEven z) :: rat) + 1 \<le> of_int (roundHalfEven y)"
    by (metis of_int_1 of_int_add of_int_le_iff)
  from roundHalfEven_error[of y] roundHalfEven_error[of z] g assms
  have "y = z" by linarith
  with \<open>\<not> roundHalfEven y \<le> roundHalfEven z\<close> show False by simp
qed

lemma toDouble_error: "\<bar>toDouble x - x\<bar> \<le> halfUlp x"
proof (cases "x = 0")
  case True
  then show ?thesis using halfUlp_nonneg[of 0] by (simp add: toDouble_def)
next
  case False
  define e where "e = max (binade x) (- 1022)"
  define q :: rat where "q = 2 powi (e - 52)"
  have q: "0 < q" by (simp add: q_def)
  have td: "toDouble x = of_int (roundHalfEven (x / q)) * q"
    using False by (simp add: toDouble_def Let_def e_def q_def)
  have "toDouble x - x = (of_int (roundHalfEven (x / q)) - x / q) * q"
    using q by (simp add: td field_simps)
  then have "\<bar>toDouble x - x\<bar> = \<bar>of_int (roundHalfEven (x / q)) - x / q\<bar> * q"
    using q by (simp add: abs_mult)
  also have "\<dots> \<le> 1 / 2 * q"
    using roundHalfEven_error[of "x / q"] q by (intro mult_right_mono) simp_all
  also have "\<dots> = 2 powi e / 2 ^ 53"
  proof -
    have "(2::rat) powi (e - 52) = 2 powi e / 2 ^ 52"
      by (simp add: power_int_diff)
    then show ?thesis by (simp add: q_def)
  qed
  also have "\<dots> \<le> halfUlp x"
  proof -
    have "2 powi e \<le> max \<bar>x\<bar> minNormal"
    proof (cases "- 1022 \<le> binade x")
      case True
      then have "e = binade x" by (simp add: e_def)
      with binade_bounds[OF False] have "2 powi e \<le> \<bar>x\<bar>" by blast
      then show ?thesis by (rule max.coboundedI1)
    next
      case False
      then have "e = - 1022" by (simp add: e_def)
      then have "2 powi e = minNormal" unfolding minNormal_def by (rule arg_cong)
      then show ?thesis by (simp only: max.cobounded2)
    qed
    then show ?thesis unfolding halfUlp_def by (rule divide_right_mono) simp
  qed
  finally show ?thesis .
qed

lemma proportional_sum_error:
  fixes A sa c :: rat
  assumes A: "A \<noteq> 0"
  defines "R \<equiv> toDouble (A - sa)"
  defines "r1 \<equiv> toDouble (sa / A)" and "r2 \<equiv> toDouble (R / A)"
  shows "\<bar>toDouble (c * r1) + toDouble (c * r2) - c\<bar>
           \<le> \<bar>c\<bar> * (halfUlp (sa / A) + halfUlp (R / A) + halfUlp (A - sa) / \<bar>A\<bar>)
              + halfUlp (c * r1) + halfUlp (c * r2)"
proof -
  define d1 where "d1 = r1 - sa / A"
  define d2 where "d2 = r2 - R / A"
  define d3 where "d3 = R - (A - sa)"
  define e1 where "e1 = toDouble (c * r1) - c * r1"
  define e2 where "e2 = toDouble (c * r2) - c * r2"
  have b1: "\<bar>d1\<bar> \<le> halfUlp (sa / A)" unfolding d1_def r1_def by (rule toDouble_error)
  have b2: "\<bar>d2\<bar> \<le> halfUlp (R / A)" unfolding d2_def r2_def by (rule toDouble_error)
  have b3: "\<bar>d3\<bar> \<le> halfUlp (A - sa)" unfolding d3_def R_def by (rule toDouble_error)
  have c1: "\<bar>e1\<bar> \<le> halfUlp (c * r1)" unfolding e1_def by (rule toDouble_error)
  have c2: "\<bar>e2\<bar> \<le> halfUlp (c * r2)" unfolding e2_def by (rule toDouble_error)
  have "sa / A + R / A - 1 = d3 / A" using A by (simp add: d3_def field_simps)
  then have "r1 + r2 - 1 = d1 + d2 + d3 / A" by (simp add: d1_def d2_def)
  then have "c * (r1 + r2) - c = c * (d1 + d2 + d3 / A)" by (simp add: algebra_simps)
  then have id: "toDouble (c * r1) + toDouble (c * r2) - c = c * (d1 + d2 + d3 / A) + e1 + e2"
    by (simp add: e1_def e2_def algebra_simps)
  have "\<bar>d3 / A\<bar> \<le> halfUlp (A - sa) / \<bar>A\<bar>"
    using b3 A by (simp add: divide_right_mono)
  with b1 b2 have "\<bar>d1 + d2 + d3 / A\<bar> \<le> halfUlp (sa / A) + halfUlp (R / A) + halfUlp (A - sa) / \<bar>A\<bar>"
    by linarith
  then have "\<bar>c * (d1 + d2 + d3 / A)\<bar>
      \<le> \<bar>c\<bar> * (halfUlp (sa / A) + halfUlp (R / A) + halfUlp (A - sa) / \<bar>A\<bar>)"
    unfolding abs_mult by (intro mult_left_mono) simp_all
  with c1 c2 show ?thesis unfolding id by linarith
qed

lemma toDouble_unfold:
  "x \<noteq> 0 \<Longrightarrow> e = max (binade x) (- 1022) \<Longrightarrow>
   toDouble x = of_int (roundHalfEven (x / 2 powi (e - 52))) * 2 powi (e - 52)"
  by (simp add: toDouble_def Let_def)

lemma toDouble_nonpos:
  assumes "x \<le> 0"
  shows "toDouble x \<le> 0"
proof (cases "x = 0")
  case True
  then show ?thesis by (simp add: toDouble_def)
next
  case False
  define e where "e = max (binade x) (- 1022)"
  have q: "(0::rat) < 2 powi (e - 52)" by simp
  from assms q have "x / 2 powi (e - 52) \<le> of_int 0" by (simp add: divide_le_0_iff)
  from roundHalfEven_mono[OF this] have "roundHalfEven (x / 2 powi (e - 52)) \<le> 0"
    by (simp only: roundHalfEven_of_int)
  then have "(of_int (roundHalfEven (x / 2 powi (e - 52))) :: rat) \<le> 0" by simp
  with q show ?thesis
    unfolding toDouble_unfold[OF False e_def] by (simp add: mult_le_0_iff)
qed

lemma toDouble_upper:
  assumes x: "0 < x" and e: "e = max (binade x) (- 1022)"
  shows "toDouble x \<le> 2 powi (e + 1)"
proof -
  from x have nz: "x \<noteq> 0" by simp
  have q: "(0::rat) < 2 powi (e - 52)" by simp
  from binade_bounds[OF nz] x have "x < 2 powi (binade x + 1)" by simp
  also have "\<dots> \<le> 2 powi (e + 1)" using e by (intro power_int_increasing) simp_all
  finally have "x < 2 powi (e + 1)" .
  moreover have p: "(2::rat) powi (e + 1) = 2 ^ 53 * 2 powi (e - 52)"
  proof -
    have "e + 1 = 53 + (e - 52)" by simp
    then have "(2::rat) powi (e + 1) = 2 powi (53 + (e - 52))" by (rule arg_cong)
    also have "\<dots> = 2 powi 53 * 2 powi (e - 52)" by (rule power_int_add) simp
    finally show ?thesis by simp
  qed
  ultimately have "x / 2 powi (e - 52) \<le> of_int (2 ^ 53)"
    using q by (simp add: field_simps)
  from roundHalfEven_mono[OF this] have "roundHalfEven (x / 2 powi (e - 52)) \<le> 2 ^ 53"
    by (simp only: roundHalfEven_of_int)
  then have "(of_int (roundHalfEven (x / 2 powi (e - 52))) :: rat) \<le> of_int (2 ^ 53)"
    by (simp only: of_int_le_iff)
  then have "of_int (roundHalfEven (x / 2 powi (e - 52))) * 2 powi (e - 52)
               \<le> (2::rat) ^ 53 * 2 powi (e - 52)"
    using q by (intro mult_right_mono) simp_all
  with p show ?thesis
    unfolding toDouble_unfold[OF nz e] by simp
qed

lemma toDouble_lower:
  assumes x: "0 < x" and n: "- 1022 \<le> binade x"
  shows "2 powi binade x \<le> toDouble x"
proof -
  from x have nz: "x \<noteq> 0" by simp
  define e where "e = binade x"
  from n have e: "e = max (binade x) (- 1022)" by (simp add: e_def)
  have q: "(0::rat) < 2 powi (e - 52)" by simp
  from binade_bounds[OF nz] x have lo: "2 powi e \<le> x" by (simp add: e_def)
  have p: "(2::rat) powi e = 2 ^ 52 * 2 powi (e - 52)"
  proof -
    have "e = 52 + (e - 52)" by simp
    then have "(2::rat) powi e = 2 powi (52 + (e - 52))" by (rule arg_cong)
    also have "\<dots> = 2 powi 52 * 2 powi (e - 52)" by (rule power_int_add) simp
    finally show ?thesis by simp
  qed
  with lo q have "of_int (2 ^ 52) \<le> x / 2 powi (e - 52)" by (simp add: field_simps)
  from roundHalfEven_mono[OF this] have "2 ^ 52 \<le> roundHalfEven (x / 2 powi (e - 52))"
    by (simp only: roundHalfEven_of_int)
  then have "(of_int (2 ^ 52) :: rat) \<le> of_int (roundHalfEven (x / 2 powi (e - 52)))"
    by (simp only: of_int_le_iff)
  then have "(2::rat) ^ 52 * 2 powi (e - 52)
               \<le> of_int (roundHalfEven (x / 2 powi (e - 52))) * 2 powi (e - 52)"
    using q by (intro mult_right_mono) simp_all
  with p show ?thesis unfolding toDouble_unfold[OF nz e] e_def by simp
qed

lemma binade_mono:
  assumes "0 < x" and "x \<le> y"
  shows "binade x \<le> binade y"
proof (rule ccontr)
  assume "\<not> binade x \<le> binade y"
  then have "binade y + 1 \<le> binade x" by simp
  then have "(2::rat) powi (binade y + 1) \<le> 2 powi binade x"
    by (intro power_int_increasing) simp_all
  moreover from assms have "x \<noteq> 0" "y \<noteq> 0" by simp_all
  from binade_bounds[OF this(1)] binade_bounds[OF this(2)] assms
  have "2 powi binade x \<le> x" "y < 2 powi (binade y + 1)" by simp_all
  ultimately show False using assms by linarith
qed

lemma toDouble_mono_pos:
  assumes x: "0 < x" and xy: "x \<le> y"
  shows "toDouble x \<le> toDouble y"
proof -
  from x xy have y: "0 < y" by simp
  from x y have nz: "x \<noteq> 0" "y \<noteq> 0" by simp_all
  define ex where "ex = max (binade x) (- 1022)"
  define ey where "ey = max (binade y) (- 1022)"
  from binade_mono[OF x xy] have le: "ex \<le> ey" by (simp add: ex_def ey_def)
  show ?thesis
  proof (cases "ex = ey")
    case True
    have q: "(0::rat) < 2 powi (ex - 52)" by simp
    from xy q have "x / 2 powi (ex - 52) \<le> y / 2 powi (ex - 52)"
      by (simp add: divide_right_mono)
    from roundHalfEven_mono[OF this]
    have "(of_int (roundHalfEven (x / 2 powi (ex - 52))) :: rat)
            \<le> of_int (roundHalfEven (y / 2 powi (ex - 52)))"
      by (simp only: of_int_le_iff)
    then have "of_int (roundHalfEven (x / 2 powi (ex - 52))) * 2 powi (ex - 52)
                 \<le> of_int (roundHalfEven (y / 2 powi (ex - 52))) * (2::rat) powi (ex - 52)"
      using q by (intro mult_right_mono) simp_all
    then show ?thesis
      unfolding toDouble_unfold[OF nz(1) ex_def] toDouble_unfold[OF nz(2) ey_def] True[symmetric] .
  next
    case False
    with le have lt: "ex + 1 \<le> ey" by simp
    then have "- 1022 < ey" by (simp add: ex_def)
    then have eyb: "ey = binade y" "- 1022 \<le> binade y" by (simp_all add: ey_def)
    have "toDouble x \<le> 2 powi (ex + 1)" by (rule toDouble_upper[OF x ex_def])
    also have "\<dots> \<le> 2 powi ey" using lt by (intro power_int_increasing) simp_all
    also have "\<dots> \<le> toDouble y" unfolding eyb(1) by (rule toDouble_lower[OF y eyb(2)])
    finally show ?thesis .
  qed
qed

lemma toDouble_grid:
  assumes half: "1 / 2 < toDouble x"
  shows "\<exists>K::int. toDouble x = of_int K / 2 ^ 53"
proof -
  have x: "0 < x"
  proof (rule ccontr)
    assume "\<not> 0 < x"
    then have "toDouble x \<le> 0" by (intro toDouble_nonpos) simp
    with half show False by simp
  qed
  then have nz: "x \<noteq> 0" by simp
  define e where "e = max (binade x) (- 1022)"
  have "(2::rat) powi (- 1) = 1 / 2" by simp
  with toDouble_upper[OF x e_def] half have "(2::rat) powi (- 1) < 2 powi (e + 1)"
    by linarith
  have e: "0 \<le> e + 1"
  proof (rule ccontr)
    assume "\<not> 0 \<le> e + 1"
    then have "e + 1 \<le> - 1" by simp
    then have "(2::rat) powi (e + 1) \<le> 2 powi (- 1)" by (intro power_int_increasing) simp_all
    with \<open>(2::rat) powi (- 1) < 2 powi (e + 1)\<close> show False by simp
  qed
  define m where "m = roundHalfEven (x / 2 powi (e - 52))"
  have "e - 52 = (e + 1) - 53" by simp
  then have "(2::rat) powi (e - 52) = 2 powi ((e + 1) - 53)" by (rule arg_cong)
  also have "\<dots> = 2 powi (e + 1) / 2 powi 53" by (rule power_int_diff) simp
  also have "(2::rat) powi (e + 1) = of_int (2 ^ nat (e + 1))"
    using e by (simp add: power_int_def)
  finally have "toDouble x = of_int (m * 2 ^ nat (e + 1)) / 2 ^ 53"
    unfolding toDouble_unfold[OF nz e_def] m_def by simp
  then show ?thesis ..
qed

lemma percentage_threshold:
  "95 \<le> toDouble (toDouble x * 100) \<longleftrightarrow> toDouble (95 / 100) \<le> toDouble x"
proof -
  define q where "q = toDouble x"
  define c0 :: rat where "c0 = 8556839292003942 / 2 ^ 53"
  have c0: "toDouble (95 / 100) = c0"
    using toDouble_eqI[of "- 1" "95 / 100" 8556839292003942] by (simp add: c0_def)
  have at: "toDouble (c0 * 100) = 95"
    using toDouble_eqI[of 6 "c0 * 100" 6685030696878080] by (simp add: c0_def)
  have below: "toDouble ((c0 - 1 / 2 ^ 53) * 100) < 95"
    using toDouble_eqI[of 6 "(c0 - 1 / 2 ^ 53) * 100" 6685030696878079] by (simp add: c0_def)
  have fifty: "toDouble 50 = 50"
    using toDouble_eqI[of 5 50 7036874417766400] by simp
  have "95 \<le> toDouble (q * 100) \<longleftrightarrow> c0 \<le> q"
  proof
    assume a: "c0 \<le> q"
    have "0 < c0 * 100" by (simp add: c0_def)
    moreover from a have "c0 * 100 \<le> q * 100" by simp
    ultimately have "toDouble (c0 * 100) \<le> toDouble (q * 100)" by (rule toDouble_mono_pos)
    with at show "95 \<le> toDouble (q * 100)" by simp
  next
    assume a: "95 \<le> toDouble (q * 100)"
    show "c0 \<le> q"
    proof (rule ccontr)
      assume "\<not> c0 \<le> q"
      then have lt: "q < c0" by simp
      consider "q \<le> 0" | "0 < q" "q \<le> 1 / 2" | "1 / 2 < q" by linarith
      then show False
      proof cases
        case 1
        then have "toDouble (q * 100) \<le> 0" by (intro toDouble_nonpos) (simp add: mult_le_0_iff)
        with a show False by simp
      next
        case 2
        then have "0 < q * 100" "q * 100 \<le> 50" by simp_all
        then have "toDouble (q * 100) \<le> toDouble 50" by (rule toDouble_mono_pos)
        with a fifty show False by simp
      next
        case 3
        from toDouble_grid[of x] 3 obtain K :: int where K: "q = of_int K / 2 ^ 53"
          unfolding q_def by blast
        from lt have "of_int K < (of_int 8556839292003942 :: rat)"
          unfolding K c0_def by (simp add: divide_less_cancel)
        then have "K < 8556839292003942" by (simp only: of_int_less_iff)
        then have "K \<le> 8556839292003941" by simp
        then have "(of_int K :: rat) \<le> of_int 8556839292003941" by (simp only: of_int_le_iff)
        then have "q \<le> c0 - 1 / 2 ^ 53" unfolding K c0_def by (simp add: field_simps)
        then have "q * 100 \<le> (c0 - 1 / 2 ^ 53) * 100" by simp
        moreover from 3 have "0 < q * 100" by simp
        ultimately have "toDouble (q * 100) \<le> toDouble ((c0 - 1 / 2 ^ 53) * 100)"
          by (intro toDouble_mono_pos)
        with below a show False by simp
      qed
    qed
  qed
  then show ?thesis unfolding q_def c0 .
qed

section \<open>Basic facts\<close>

lemma getAllMovements_eq [simp]: "getAllMovements s = s"
  by (cases s) (simp_all add: getAllMovements_def getLastRow_def)

lemma idExists_iff: "idExists i s \<longleftrightarrow> i \<in> ID ` set s"
  by (cases s) (auto simp: idExists_def getLastRow_def list_ex_iff)

lemma foldl_maxId_ge:
  "a \<le> foldl (\<lambda>maxId row. if ID row \<noteq> 0 \<and> ID row > maxId then ID row else maxId) a s"
proof (induction s arbitrary: a)
  case Nil show ?case by simp
next
  case (Cons r s)
  have "a \<le> (if ID r \<noteq> 0 \<and> ID r > a then ID r else a)" by simp
  also have "\<dots> \<le> foldl (\<lambda>maxId row. if ID row \<noteq> 0 \<and> ID row > maxId then ID row else maxId)
      (if ID r \<noteq> 0 \<and> ID r > a then ID r else a) s" by (rule Cons.IH)
  finally show ?case by simp
qed

lemma foldl_maxId_Max:
  "0 \<le> a \<Longrightarrow>
   foldl (\<lambda>maxId row. if ID row \<noteq> 0 \<and> ID row > maxId then ID row else maxId) a s
     = Max (insert a (ID ` set s))"
proof (induction s arbitrary: a)
  case Nil show ?case by simp
next
  case (Cons r s)
  let ?a' = "if ID r \<noteq> 0 \<and> ID r > a then ID r else a"
  have a': "?a' = max a (ID r)" using Cons.prems by auto
  have "0 \<le> ?a'" using Cons.prems by auto
  from Cons.IH[OF this] have
    "foldl (\<lambda>maxId row. if ID row \<noteq> 0 \<and> ID row > maxId then ID row else maxId) ?a' s
       = Max (insert ?a' (ID ` set s))" .
  also have "\<dots> = Max (insert a (ID ` set (r # s)))"
    unfolding a' by (cases "set s = {}") (simp_all add: max.commute max.left_commute Max_insert)
  finally show ?case by simp
qed

lemma getNextId_Max: "getNextId s = Max (insert 0 (ID ` set s)) + 1"
  by (cases s) (simp_all add: getNextId_def getLastRow_def foldl_maxId_Max del: foldl_Cons)

lemma getNextId_gt: "m \<in> set s \<Longrightarrow> ID m < getNextId s"
proof -
  assume "m \<in> set s"
  then have "ID m \<le> Max (insert 0 (ID ` set s))" by (intro Max_ge) auto
  then show ?thesis by (simp add: getNextId_Max)
qed

lemma getNextId_pos: "1 \<le> getNextId s"
proof -
  have "0 \<le> Max (insert 0 (ID ` set s))" by (intro Max_ge) auto
  then show ?thesis by (simp add: getNextId_Max)
qed

lemma getNextId_fresh: "\<not> idExists (getNextId s) s"
  using getNextId_gt by (fastforce simp: idExists_iff)

lemma findIndex_None: "findIndex p xs = None \<longleftrightarrow> (\<forall>x \<in> set xs. \<not> p x)"
  by (induction xs) auto

lemma findIndex_Some:
  "findIndex p xs = Some i \<Longrightarrow> i < length xs \<and> p (xs ! i) \<and> (\<forall>j < i. \<not> p (xs ! j))"
proof (induction xs arbitrary: i)
  case Nil then show ?case by simp
next
  case (Cons x xs)
  show ?case
  proof (cases "p x")
    case True with Cons.prems show ?thesis by simp
  next
    case False
    with Cons.prems obtain k where k: "findIndex p xs = Some k" "i = Suc k" by auto
    from Cons.IH[OF k(1)] have "k < length xs" "p (xs ! k)" "\<forall>j < k. \<not> p (xs ! j)" by auto
    with False k(2) show ?thesis by (auto simp: less_Suc_eq_0_disj)
  qed
qed

lemma findIndex_distinct:
  "distinct (map f xs) \<Longrightarrow> i < length xs \<Longrightarrow> findIndex (\<lambda>x. f x = f (xs ! i)) xs = Some i"
proof (induction xs arbitrary: i)
  case Nil then show ?case by simp
next
  case (Cons x xs)
  show ?case
  proof (cases i)
    case 0 then show ?thesis by simp
  next
    case (Suc k)
    with Cons.prems have "k < length xs" "f x \<noteq> f (xs ! k)" by (auto simp: image_iff)
    with Cons Suc show ?thesis by auto
  qed
qed

lemma map_ID_setValues:
  "(\<And>r. ID (f r) = ID r) \<Longrightarrow> map ID (setValues k f s) = map ID s"
proof -
  assume a: "\<And>r. ID (f r) = ID r"
  show ?thesis
  proof (cases "k - 2 < length s")
    case True
    then have "(map ID s)[k - 2 := ID (s ! (k - 2))] = map ID s"
      by (metis list_update_id nth_map)
    then show ?thesis by (simp add: setValues_def map_update a)
  next
    case False
    then have "length s \<le> k - 2" by simp
    then show ?thesis by (simp only: setValues_def list_update_beyond)
  qed
qed

lemma length_setValues [simp]: "length (setValues k f s) = length s"
  by (simp add: setValues_def)

lemma idExists_setValues:
  "(\<And>r. ID (f r) = ID r) \<Longrightarrow> idExists i (setValues k f s) = idExists i s"
proof -
  assume a: "\<And>r. ID (f r) = ID r"
  have "ID ` set (setValues k f s) = set (map ID (setValues k f s))" by simp
  also have "\<dots> = ID ` set s" by (simp only: map_ID_setValues[of f, OF a] set_map)
  finally show ?thesis by (simp add: idExists_iff)
qed

lemma getNextId_cong: "map ID s = map ID s' \<Longrightarrow> getNextId s = getNextId s'"
proof -
  assume "map ID s = map ID s'"
  then have "set (map ID s) = set (map ID s')" by simp
  then have "ID ` set s = ID ` set s'" by simp
  then show ?thesis by (simp add: getNextId_Max)
qed

lemma addMovement_fresh:
  "\<not> idExists (ID r) s \<Longrightarrow> addMovement r s = (Inr (), s @ [r])"
  by (simp add: addMovement_def)

lemma addMovement_duplicate:
  "idExists (ID r) s \<Longrightarrow> addMovement r s = (Inl (DuplicateId (ID r)), s)"
  by (simp add: addMovement_def)

lemma addMovement_distinct:
  "distinct (map ID s) \<Longrightarrow> distinct (map ID (snd (addMovement r s)))"
  by (auto simp: addMovement_def idExists_iff Let_def)

lemma addEach_distinct:
  "distinct (map ID s) \<Longrightarrow> distinct (map ID (snd (addEach rs s)))"
proof (induction rs arbitrary: s)
  case Nil then show ?case by simp
next
  case (Cons r rs)
  from Cons.prems have d: "distinct (map ID (snd (addMovement r s)))"
    by (rule addMovement_distinct)
  show ?case
  proof (cases "addMovement r s")
    case (Pair res s')
    with d have d': "distinct (map ID s')" by simp
    show ?thesis
    proof (cases res)
      case (Inl e) with Pair d' show ?thesis by simp
    next
      case (Inr u) with Pair Cons.IH[OF d'] show ?thesis by simp
    qed
  qed
qed

lemma getNextId_append_fresh:
  "ID r = getNextId s \<Longrightarrow> getNextId (s @ [r]) = getNextId s + 1"
proof -
  assume r: "ID r = getNextId s"
  have fin: "finite (insert 0 (ID ` set s))" by simp
  have "Max (insert 0 (ID ` set (s @ [r]))) = Max (insert (ID r) (insert 0 (ID ` set s)))"
    by (simp add: insert_commute)
  also have "\<dots> = max (ID r) (Max (insert 0 (ID ` set s)))"
    by (rule Max_insert) simp_all
  also have "\<dots> = ID r" using r by (simp add: getNextId_Max)
  finally show ?thesis using r by (simp add: getNextId_Max)
qed

text \<open>The two splits in closed form.\<close>

lemma splitMovement_notfound:
  "findIndex (\<lambda>movement. ID movement = i) s = None \<Longrightarrow>
   splitMovement scv i info s = (Inr None, s)"
  by (simp add: splitMovement_def)

lemma splitMovement_found:
  assumes "findIndex (\<lambda>movement. ID movement = i) s = Some k"
  shows "\<exists>f new. splitMovement scv i info s
             = (Inr (Some (getNextId s)), setValues (k + 2) f s @ [new])
           \<and> (\<forall>r. ID (f r) = ID r) \<and> ID new = getNextId s
           \<and> (\<forall>r. AMOUNT (f r) = toNumber (split_amount info))
           \<and> AMOUNT new = toDouble (AMOUNT (s ! k) - toNumber (split_amount info))
           \<and> (\<forall>r. CLP_VALUE (f r) = clpValue (scv (AMOUNT (s ! k)) (toNumber (split_amount info))
                  \<lparr>clpValue = CLP_VALUE (s ! k), usdValue = USD_VALUE (s ! k),
                   gbpValue = GBP_VALUE (s ! k)\<rparr>))
           \<and> (\<forall>r. USD_VALUE (f r) = usdValue (scv (AMOUNT (s ! k)) (toNumber (split_amount info))
                  \<lparr>clpValue = CLP_VALUE (s ! k), usdValue = USD_VALUE (s ! k),
                   gbpValue = GBP_VALUE (s ! k)\<rparr>))
           \<and> (\<forall>r. GBP_VALUE (f r) = gbpValue (scv (AMOUNT (s ! k)) (toNumber (split_amount info))
                  \<lparr>clpValue = CLP_VALUE (s ! k), usdValue = USD_VALUE (s ! k),
                   gbpValue = GBP_VALUE (s ! k)\<rparr>))
           \<and> CLP_VALUE new = clpValue (scv (AMOUNT (s ! k))
                  (toDouble (AMOUNT (s ! k) - toNumber (split_amount info)))
                  \<lparr>clpValue = CLP_VALUE (s ! k), usdValue = USD_VALUE (s ! k),
                   gbpValue = GBP_VALUE (s ! k)\<rparr>)
           \<and> USD_VALUE new = usdValue (scv (AMOUNT (s ! k))
                  (toDouble (AMOUNT (s ! k) - toNumber (split_amount info)))
                  \<lparr>clpValue = CLP_VALUE (s ! k), usdValue = USD_VALUE (s ! k),
                   gbpValue = GBP_VALUE (s ! k)\<rparr>)
           \<and> GBP_VALUE new = gbpValue (scv (AMOUNT (s ! k))
                  (toDouble (AMOUNT (s ! k) - toNumber (split_amount info)))
                  \<lparr>clpValue = CLP_VALUE (s ! k), usdValue = USD_VALUE (s ! k),
                   gbpValue = GBP_VALUE (s ! k)\<rparr>)
           \<and> CURRENCY new = CURRENCY (s ! k) \<and> (\<forall>r. CURRENCY (f r) = CURRENCY r)"
proof -
  let ?ocv = "\<lparr>clpValue = CLP_VALUE (s ! k), usdValue = USD_VALUE (s ! k),
               gbpValue = GBP_VALUE (s ! k)\<rparr>"
  let ?sa = "toNumber (split_amount info)"
  let ?p = "scv (AMOUNT (s ! k)) ?sa ?ocv"
  let ?f = "\<lambda>r. r\<lparr>AMOUNT := ?sa,
                          CATEGORY := cellText (split_category info),
                          USER_DESCRIPTION := cellText (clean_description info),
                          COMMENT := [],
                          AI_COMMENT := ''Split into #'' @ toString (getNextId s),
                          ORIGINAL_AMOUNT := Some (AMOUNT (s ! k)),
                          CLP_VALUE := clpValue ?p,
                          USD_VALUE := usdValue ?p,
                          GBP_VALUE := gbpValue ?p\<rparr>"
  have f: "\<And>r. ID (?f r) = ID r" by simp
  have fresh: "\<not> idExists (getNextId s) (setValues (k + 2) ?f s)"
    by (simp only: idExists_setValues[of ?f, OF f] getNextId_fresh not_False_eq_True)
  show ?thesis
    apply (rule exI[of _ ?f])
    using assms fresh
    apply (simp add: splitMovement_def Let_def addMovement_def)
    done
qed

lemma splitExpense_notfound:
  "findIndex (\<lambda>movement. ID movement = i) s = None \<Longrightarrow>
   splitExpenseForRecategorization scv i info s = (Inr None, s)"
  by (simp add: splitExpenseForRecategorization_def)

lemma splitExpense_invalid:
  "findIndex (\<lambda>movement. ID movement = i) s = Some k \<Longrightarrow>
   toNumber (split_amount info) \<ge> AMOUNT (s ! k) \<or> toNumber (split_amount info) \<le> 0 \<Longrightarrow>
   splitExpenseForRecategorization scv i info s = (Inr None, s)"
  by (auto simp add: splitExpenseForRecategorization_def Let_def)

lemma splitExpense_found:
  assumes "findIndex (\<lambda>movement. ID movement = i) s = Some k"
    and "\<not> (toNumber (split_amount info) \<ge> AMOUNT (s ! k) \<or> toNumber (split_amount info) \<le> 0)"
  shows "\<exists>f new. splitExpenseForRecategorization scv i info s
             = (Inr (Some (getNextId s)), setValues (k + 2) f s @ [new])
           \<and> (\<forall>r. ID (f r) = ID r) \<and> ID new = getNextId s
           \<and> (\<forall>r. AMOUNT (f r) = toDouble (AMOUNT (s ! k) - toNumber (split_amount info)))
           \<and> AMOUNT new = toNumber (split_amount info)
           \<and> (\<forall>r. CLP_VALUE (f r) = clpValue (scv (AMOUNT (s ! k))
                  (toDouble (AMOUNT (s ! k) - toNumber (split_amount info)))
                  \<lparr>clpValue = CLP_VALUE (s ! k), usdValue = USD_VALUE (s ! k),
                   gbpValue = GBP_VALUE (s ! k)\<rparr>))
           \<and> (\<forall>r. USD_VALUE (f r) = usdValue (scv (AMOUNT (s ! k))
                  (toDouble (AMOUNT (s ! k) - toNumber (split_amount info)))
                  \<lparr>clpValue = CLP_VALUE (s ! k), usdValue = USD_VALUE (s ! k),
                   gbpValue = GBP_VALUE (s ! k)\<rparr>))
           \<and> (\<forall>r. GBP_VALUE (f r) = gbpValue (scv (AMOUNT (s ! k))
                  (toDouble (AMOUNT (s ! k) - toNumber (split_amount info)))
                  \<lparr>clpValue = CLP_VALUE (s ! k), usdValue = USD_VALUE (s ! k),
                   gbpValue = GBP_VALUE (s ! k)\<rparr>))
           \<and> CLP_VALUE new = clpValue (scv (AMOUNT (s ! k)) (toNumber (split_amount info))
                  \<lparr>clpValue = CLP_VALUE (s ! k), usdValue = USD_VALUE (s ! k),
                   gbpValue = GBP_VALUE (s ! k)\<rparr>)
           \<and> USD_VALUE new = usdValue (scv (AMOUNT (s ! k)) (toNumber (split_amount info))
                  \<lparr>clpValue = CLP_VALUE (s ! k), usdValue = USD_VALUE (s ! k),
                   gbpValue = GBP_VALUE (s ! k)\<rparr>)
           \<and> GBP_VALUE new = gbpValue (scv (AMOUNT (s ! k)) (toNumber (split_amount info))
                  \<lparr>clpValue = CLP_VALUE (s ! k), usdValue = USD_VALUE (s ! k),
                   gbpValue = GBP_VALUE (s ! k)\<rparr>)
           \<and> CURRENCY new = CURRENCY (s ! k) \<and> (\<forall>r. CURRENCY (f r) = CURRENCY r)"
proof -
  let ?ocv = "\<lparr>clpValue = CLP_VALUE (s ! k), usdValue = USD_VALUE (s ! k),
               gbpValue = GBP_VALUE (s ! k)\<rparr>"
  let ?sa = "toNumber (split_amount info)"
  let ?p = "scv (AMOUNT (s ! k)) (toDouble (AMOUNT (s ! k) - ?sa)) ?ocv"
  let ?f = "\<lambda>r. r\<lparr>AMOUNT := toDouble (AMOUNT (s ! k) - ?sa),
                               USER_DESCRIPTION :=
                                 orText (clean_description info)
                                   (USER_DESCRIPTION (s ! k)),
                               CATEGORY := [],
                               COMMENT := [],
                               AI_COMMENT := ''Split into #'' @ toString (getNextId s),
                               ORIGINAL_AMOUNT := Some (AMOUNT (s ! k)),
                               CLP_VALUE := clpValue ?p,
                               USD_VALUE := usdValue ?p,
                               GBP_VALUE := gbpValue ?p\<rparr>"
  have f: "\<And>r. ID (?f r) = ID r" by simp
  have fresh: "\<not> idExists (getNextId s) (setValues (k + 2) ?f s)"
    by (simp only: idExists_setValues[of ?f, OF f] getNextId_fresh not_False_eq_True)
  show ?thesis
    apply (rule exI[of _ ?f])
    using assms fresh
    apply (simp add: splitExpenseForRecategorization_def Let_def addMovement_def)
    done
qed

lemma nth_setValues_append:
  "k < length s \<Longrightarrow> (setValues (k + 2) f s @ [new]) ! k = f (s ! k)"
  by (simp add: setValues_def nth_append)

lemma nth_setValues_append_other:
  "j < length s \<Longrightarrow> j \<noteq> k \<Longrightarrow> (setValues (k + 2) f s @ [new]) ! j = s ! j"
  by (simp add: setValues_def nth_append)

lemma nth_setValues_append_last:
  "(setValues (k + 2) f s @ [new]) ! length s = new"
  by (simp add: nth_append)

lemma scaleValue_halves:
  "(case v of
      Num c \<Rightarrow>
        if A = 0 then scaleValue A sa v = NaN \<and> scaleValue A (toDouble (A - sa)) v = NaN
        else
         (let r1 = toDouble (sa / A); r2 = toDouble (toDouble (A - sa) / A);
              p1 = toDouble (c * r1); p2 = toDouble (c * r2)
          in scaleValue A sa v
               = (if finiteDouble r1 \<and> finiteDouble p1 then Num p1 else NaN) \<and>
             scaleValue A (toDouble (A - sa)) v
               = (if finiteDouble r2 \<and> finiteDouble p2 then Num p2 else NaN) \<and>
             \<bar>p1 + p2 - c\<bar>
               \<le> \<bar>c\<bar> * (halfUlp (sa / A) + halfUlp (toDouble (A - sa) / A)
                          + halfUlp (A - sa) / \<bar>A\<bar>)
                  + halfUlp (c * r1) + halfUlp (c * r2))
    | Text t \<Rightarrow> scaleValue A sa v = NaN \<and> scaleValue A (toDouble (A - sa)) v = NaN
    | NaN \<Rightarrow> scaleValue A sa v = NaN \<and> scaleValue A (toDouble (A - sa)) v = NaN)"
proof (cases v)
  case (Num c)
  show ?thesis
  proof (cases "A = 0")
    case True
    with Num show ?thesis by (simp add: scaleValue_def)
  next
    case False
    from proportional_sum_error[OF False, where sa = sa and c = c] False Num show ?thesis
      by (simp add: scaleValue_def Let_def)
  qed
qed (simp_all add: scaleValue_def)

lemma proportionalHalves_I:
  assumes part: "AMOUNT part = sa"
    and rest: "AMOUNT rest = toDouble (AMOUNT original - sa)"
    and vpart: "valuesOf part = splitProportionally (AMOUNT original) sa (valuesOf original)"
    and vrest: "valuesOf rest
                  = splitProportionally (AMOUNT original) (toDouble (AMOUNT original - sa))
                      (valuesOf original)"
  shows "proportionalHalves original sa part rest"
proof -
  let ?A = "AMOUNT original"
  let ?R = "toDouble (?A - sa)"
  have "AMOUNT part + AMOUNT rest - ?A = ?R - (?A - sa)" by (simp add: part rest)
  then have am: "\<bar>AMOUNT part + AMOUNT rest - ?A\<bar> \<le> halfUlp (?A - sa)"
    using toDouble_error[of "?A - sa"] by simp
  have c: "clpValue (valuesOf part) = scaleValue ?A sa (clpValue (valuesOf original))"
          "clpValue (valuesOf rest) = scaleValue ?A ?R (clpValue (valuesOf original))"
    and u: "usdValue (valuesOf part) = scaleValue ?A sa (usdValue (valuesOf original))"
          "usdValue (valuesOf rest) = scaleValue ?A ?R (usdValue (valuesOf original))"
    and g: "gbpValue (valuesOf part) = scaleValue ?A sa (gbpValue (valuesOf original))"
          "gbpValue (valuesOf rest) = scaleValue ?A ?R (gbpValue (valuesOf original))"
    by (simp_all add: vpart vrest splitProportionally_def)
  note hc = scaleValue_halves
    [where v = "clpValue (valuesOf original)" and A = ?A and sa = sa, folded c, unfolded Let_def]
  note hu = scaleValue_halves
    [where v = "usdValue (valuesOf original)" and A = ?A and sa = sa, folded u, unfolded Let_def]
  note hg = scaleValue_halves
    [where v = "gbpValue (valuesOf original)" and A = ?A and sa = sa, folded g, unfolded Let_def]
  show ?thesis
    unfolding proportionalHalves_def Let_def
    using part rest am hc hu hg
    by simp
qed

lemma exampleDecimalRow_fields:
  "ID (exampleDecimalRow i a c) = i"
  "AMOUNT (exampleDecimalRow i a c) = a"
  "CLP_VALUE (exampleDecimalRow i a c) = Num c"
  "USD_VALUE (exampleDecimalRow i a c) = Num a"
  "TYPE' (exampleDecimalRow i a c) = MOVEMENT_TYPES_EXPENSE"
  "STATUS (exampleDecimalRow i a c) = []"
  "SETTLED_MOVEMENT_ID (exampleDecimalRow i a c) = None"
  by (simp_all add: exampleDecimalRow_def exampleRow_def)

lemma exampleSplit_amount: "toNumber (split_amount (exampleSplit x)) = x"
  by (simp add: exampleSplit_def toNumber_def)

section \<open>Splits\<close>

text \<open>
  Claim C1, at inputs where it fails. The amounts and values of the sheet are doubles and
  the splits compute in doubles. A movement of 0.21 split with a split amount of 0.05
  leaves the amounts 0.05 and 0.15999999999999998 (the fraction below), by the
  shared-expense split as by the re-categorization split: the second is not \<open>A - sa\<close>,
  and the two do not sum to the 0.21 of the original, exactly or as JavaScript adds them
  (0.20999999999999996). A movement of 2.11 with a CLP value of 1899 split with a split
  amount of 1.6 leaves the CLP values 1440 and 458.99999999999983, which do not sum to
  1899. A movement whose CLP value is the error text of a failed conversion leaves two
  halves whose CLP value is not a number, where the text of the original is no number to
  sum to.
\<close>

theorem split_halves_do_not_sum_to_the_original:
  "AMOUNT (exampleCents ! 0) = toDouble (21 / 100) \<and>
   AMOUNT (snd (splitMovement splitProportionally 1 (exampleSplit (toDouble (5 / 100)))
                  exampleCents) ! 0) = toDouble (5 / 100) \<and>
   AMOUNT (snd (splitMovement splitProportionally 1 (exampleSplit (toDouble (5 / 100)))
                  exampleCents) ! 1) = 2882303761517117 / 18014398509481984 \<and>
   AMOUNT (snd (splitExpenseForRecategorization splitProportionally 1
                  (exampleSplit (toDouble (5 / 100))) exampleCents) ! 1) = toDouble (5 / 100) \<and>
   AMOUNT (snd (splitExpenseForRecategorization splitProportionally 1
                  (exampleSplit (toDouble (5 / 100))) exampleCents) ! 0)
     = 2882303761517117 / 18014398509481984 \<and>
   2882303761517117 / 18014398509481984 \<noteq> toDouble (21 / 100) - toDouble (5 / 100) \<and>
   toDouble (5 / 100) + 2882303761517117 / 18014398509481984 \<noteq> toDouble (21 / 100) \<and>
   toDouble (toDouble (5 / 100) + 2882303761517117 / 18014398509481984)
     \<noteq> toDouble (21 / 100) \<and>
   AMOUNT (examplePesos ! 0) = toDouble (211 / 100) \<and>
   CLP_VALUE (examplePesos ! 0) = Num 1899 \<and>
   CLP_VALUE (snd (splitMovement splitProportionally 1 (exampleSplit (toDouble (16 / 10)))
                     examplePesos) ! 0) = Num 1440 \<and>
   CLP_VALUE (snd (splitMovement splitProportionally 1 (exampleSplit (toDouble (16 / 10)))
                     examplePesos) ! 1) = Num (8074813394386941 / 17592186044416) \<and>
   1440 + 8074813394386941 / 17592186044416 \<noteq> (1899 :: rat) \<and>
   toDouble (1440 + 8074813394386941 / 17592186044416) \<noteq> 1899 \<and>
   CLP_VALUE ([exampleFailedRow] ! 0) = Text ''#NUM!'' \<and>
   CLP_VALUE (snd (splitMovement splitProportionally 1 (exampleSplit 25) [exampleFailedRow]) ! 0)
     = NaN \<and>
   CLP_VALUE (snd (splitMovement splitProportionally 1 (exampleSplit 25) [exampleFailedRow]) ! 1)
     = NaN"
proof -
  have tA: "toDouble (21 / 100) = 7566047373982433 / 36028797018963968"
    using toDouble_eqI[of "- 3" "21 / 100" 7566047373982433] by simp
  have ts: "toDouble (1 / 20) = 3602879701896397 / 72057594037927936"
    using toDouble_eqI[of "- 5" "1 / 20" 7205759403792794] by simp
  have tr: "toDouble (11529215046068469 / 72057594037927936) = 2882303761517117 / 18014398509481984"
    using toDouble_eqI[of "- 3" "11529215046068469 / 72057594037927936" 5764607523034234] by simp
  have tsum: "toDouble (15132094747964865 / 72057594037927936) = 236438980436951 / 1125899906842624"
    using toDouble_eqI[of "- 3" "15132094747964865 / 72057594037927936" 7566047373982432] by simp
  have uA: "toDouble (211 / 100) = 4751297606875873 / 2251799813685248"
    using toDouble_eqI[of 1 "211 / 100" 4751297606875873] by simp
  have us: "toDouble (8 / 5) = 3602879701896397 / 2251799813685248"
    using toDouble_eqI[of 0 "8 / 5" 7205759403792794] by simp
  have uR: "toDouble (287104476244869 / 562949953421312) = 287104476244869 / 562949953421312"
    using toDouble_eqI[of "- 1" "287104476244869 / 562949953421312" 4593671619917904] by simp
  have ur1: "toDouble (3602879701896397 / 4751297606875873) = 3415051850138765 / 4503599627370496"
    using toDouble_eqI[of "- 1" "3602879701896397 / 4751297606875873" 6830103700277530] by simp
  have up1: "toDouble (6485183463413514735 / 4503599627370496) = 1440"
    using toDouble_eqI[of 10 "6485183463413514735 / 4503599627370496" 6333186975989760] by simp
  have ur2: "toDouble (1148417904979476 / 4751297606875873) = 8708382217853847 / 36028797018963968"
    using toDouble_eqI[of "- 3" "1148417904979476 / 4751297606875873" 8708382217853847] by simp
  have up2: "toDouble (16537217831704455453 / 36028797018963968) = 8074813394386941 / 17592186044416"
    using toDouble_eqI[of 8 "16537217831704455453 / 36028797018963968" 8074813394386941] by simp
  have usum: "toDouble (33407561298345981 / 17592186044416) = 8351890324586495 / 4398046511104"
    using toDouble_eqI[of 10 "33407561298345981 / 17592186044416" 8351890324586495] by simp
  note t = exampleSplit_amount
  let ?A = "toDouble (21 / 100)"
  let ?sa = "toDouble (5 / 100)"
  have fi: "findIndex (\<lambda>movement. ID movement = 1) exampleCents = Some 0"
    by (simp add: exampleCents_def exampleDecimalRow_fields)
  have a: "AMOUNT (exampleCents ! 0) = ?A"
    by (simp add: exampleCents_def exampleDecimalRow_fields)
  from splitMovement_found[OF fi, of splitProportionally "exampleSplit ?sa"]
  obtain f new where
    eq: "splitMovement splitProportionally 1 (exampleSplit ?sa) exampleCents
           = (Inr (Some (getNextId exampleCents)), setValues (0 + 2) f exampleCents @ [new])"
    and rows: "\<forall>r. AMOUNT (f r) = toNumber (split_amount (exampleSplit ?sa))"
      "AMOUNT new
         = toDouble (AMOUNT (exampleCents ! 0) - toNumber (split_amount (exampleSplit ?sa)))"
    by blast
  have valid: "\<not> (toNumber (split_amount (exampleSplit ?sa)) \<ge> AMOUNT (exampleCents ! 0) \<or>
                   toNumber (split_amount (exampleSplit ?sa)) \<le> 0)"
    unfolding a t by (simp add: tA ts)
  from splitExpense_found[OF fi valid, of splitProportionally]
  obtain f' new' where
    eq': "splitExpenseForRecategorization splitProportionally 1 (exampleSplit ?sa) exampleCents
           = (Inr (Some (getNextId exampleCents)), setValues (0 + 2) f' exampleCents @ [new'])"
    and rows': "\<forall>r. AMOUNT (f' r)
         = toDouble (AMOUNT (exampleCents ! 0) - toNumber (split_amount (exampleSplit ?sa)))"
      "AMOUNT new' = toNumber (split_amount (exampleSplit ?sa))"
    by blast
  have len: "length exampleCents = 1" by (simp add: exampleCents_def)
  have rest: "toDouble (?A - ?sa) = 2882303761517117 / 18014398509481984"
    by (simp add: tA ts tr)
  have sh0: "AMOUNT (snd (splitMovement splitProportionally 1 (exampleSplit ?sa) exampleCents) ! 0)
               = ?sa"
    unfolding eq snd_conv using rows(1) len by (simp add: setValues_def nth_append t)
  have sh1: "AMOUNT (snd (splitMovement splitProportionally 1 (exampleSplit ?sa) exampleCents) ! 1)
               = 2882303761517117 / 18014398509481984"
    unfolding eq snd_conv rest[symmetric] a[symmetric]
    using rows(2) len by (simp add: nth_append t)
  have re0: "AMOUNT (snd (splitExpenseForRecategorization splitProportionally 1
                            (exampleSplit ?sa) exampleCents) ! 0)
               = 2882303761517117 / 18014398509481984"
    unfolding eq' snd_conv rest[symmetric] a[symmetric]
    using rows'(1) len by (simp add: setValues_def nth_append t)
  have re1: "AMOUNT (snd (splitExpenseForRecategorization splitProportionally 1
                            (exampleSplit ?sa) exampleCents) ! 1) = ?sa"
    unfolding eq' snd_conv using rows'(2) len by (simp add: nth_append t)
  have d1: "2882303761517117 / 18014398509481984 \<noteq> ?A - ?sa"
    by (simp add: tA ts)
  have d2: "?sa + 2882303761517117 / 18014398509481984 \<noteq> ?A"
    by (simp add: tA ts)
  have d3: "toDouble (?sa + 2882303761517117 / 18014398509481984) \<noteq> ?A"
    by (simp add: tA ts tsum)
  let ?B = "toDouble (211 / 100)"
  let ?sb = "toDouble (16 / 10)"
  let ?ocv = "\<lparr>clpValue = CLP_VALUE (examplePesos ! 0), usdValue = USD_VALUE (examplePesos ! 0),
               gbpValue = GBP_VALUE (examplePesos ! 0)\<rparr>"
  have fj: "findIndex (\<lambda>movement. ID movement = 1) examplePesos = Some 0"
    by (simp add: examplePesos_def exampleDecimalRow_fields)
  have b: "AMOUNT (examplePesos ! 0) = ?B" and c: "CLP_VALUE (examplePesos ! 0) = Num 1899"
    by (simp_all add: examplePesos_def exampleDecimalRow_fields)
  have lenb: "length examplePesos = 1" by (simp add: examplePesos_def)
  from splitMovement_found[OF fj, of splitProportionally "exampleSplit ?sb"]
  obtain g new'' where
    eqb: "splitMovement splitProportionally 1 (exampleSplit ?sb) examplePesos
           = (Inr (Some (getNextId examplePesos)), setValues (0 + 2) g examplePesos @ [new''])"
    and rowsb:
      "\<forall>r. CLP_VALUE (g r) = clpValue (splitProportionally (AMOUNT (examplePesos ! 0))
             (toNumber (split_amount (exampleSplit ?sb))) ?ocv)"
      "CLP_VALUE new'' = clpValue (splitProportionally (AMOUNT (examplePesos ! 0))
             (toDouble (AMOUNT (examplePesos ! 0) - toNumber (split_amount (exampleSplit ?sb))))
             ?ocv)"
    by blast
  have nz: "?B \<noteq> 0" by (simp add: uA)
  have r1: "toDouble (?sb / ?B) = 3415051850138765 / 4503599627370496"
    by (simp add: uA us ur1)
  have p1: "toDouble (1899 * toDouble (?sb / ?B)) = 1440"
    unfolding r1 by (simp add: up1)
  have R: "toDouble (?B - ?sb) = 287104476244869 / 562949953421312"
    by (simp add: uA us uR)
  have r2: "toDouble (toDouble (?B - ?sb) / ?B) = 8708382217853847 / 36028797018963968"
    unfolding R by (simp add: uA ur2)
  have p2: "toDouble (1899 * toDouble (toDouble (?B - ?sb) / ?B))
              = 8074813394386941 / 17592186044416"
    unfolding r2 by (simp add: up2)
  have v0: "clpValue (splitProportionally ?B ?sb ?ocv) = Num 1440"
    using nz
    by (simp add: splitProportionally_def scaleValue_def c Let_def uA us ur1 up1
          finiteDouble_def)
  have v1: "clpValue (splitProportionally ?B (toDouble (?B - ?sb)) ?ocv)
              = Num (8074813394386941 / 17592186044416)"
    using nz
    by (simp add: splitProportionally_def scaleValue_def c Let_def uA us uR ur2 up2
          finiteDouble_def)
  have pe0: "CLP_VALUE (snd (splitMovement splitProportionally 1 (exampleSplit ?sb)
                               examplePesos) ! 0) = Num 1440"
    unfolding eqb snd_conv v0[symmetric] b[symmetric]
    using rowsb(1) lenb by (simp add: setValues_def nth_append t)
  have pe1: "CLP_VALUE (snd (splitMovement splitProportionally 1 (exampleSplit ?sb)
                               examplePesos) ! 1) = Num (8074813394386941 / 17592186044416)"
    unfolding eqb snd_conv v1[symmetric] b[symmetric]
    using rowsb(2) lenb by (simp add: nth_append t)
  have e1: "1440 + 8074813394386941 / 17592186044416 \<noteq> (1899 :: rat)" by simp
  have e2: "toDouble (1440 + 8074813394386941 / 17592186044416) \<noteq> 1899"
    by (simp add: usum)
  let ?ocf = "\<lparr>clpValue = CLP_VALUE ([exampleFailedRow] ! 0),
               usdValue = USD_VALUE ([exampleFailedRow] ! 0),
               gbpValue = GBP_VALUE ([exampleFailedRow] ! 0)\<rparr>"
  have fk: "findIndex (\<lambda>movement. ID movement = 1) [exampleFailedRow] = Some 0"
    by (simp add: exampleFailedRow_def exampleRow_def)
  have cf: "CLP_VALUE ([exampleFailedRow] ! 0) = Text ''#NUM!''"
    by (simp add: exampleFailedRow_def)
  from splitMovement_found[OF fk, of splitProportionally "exampleSplit 25"]
  obtain h new3 where
    eqf: "splitMovement splitProportionally 1 (exampleSplit 25) [exampleFailedRow]
           = (Inr (Some (getNextId [exampleFailedRow])),
              setValues (0 + 2) h [exampleFailedRow] @ [new3])"
    and rowsf:
      "\<forall>r. CLP_VALUE (h r) = clpValue (splitProportionally (AMOUNT ([exampleFailedRow] ! 0))
             (toNumber (split_amount (exampleSplit 25))) ?ocf)"
      "CLP_VALUE new3 = clpValue (splitProportionally (AMOUNT ([exampleFailedRow] ! 0))
             (toDouble (AMOUNT ([exampleFailedRow] ! 0)
                          - toNumber (split_amount (exampleSplit 25)))) ?ocf)"
    by blast
  have fa0: "CLP_VALUE (snd (splitMovement splitProportionally 1 (exampleSplit 25)
                               [exampleFailedRow]) ! 0) = NaN"
    unfolding eqf using rowsf(1) cf
    by (simp add: setValues_def splitProportionally_def scaleValue_def)
  have fa1: "CLP_VALUE (snd (splitMovement splitProportionally 1 (exampleSplit 25)
                               [exampleFailedRow]) ! 1) = NaN"
    unfolding eqf using rowsf(2) cf
    by (simp add: setValues_def splitProportionally_def scaleValue_def)
  show ?thesis
    by (intro conjI a sh0 sh1 re1 re0 d1 d2 d3 b c pe0 pe1 e1 e2 cf fa0 fa1)
qed

text \<open>
  Claim C1, as it holds. A split of a movement that is found, with amount \<open>A\<close> and a
  numeric split amount \<open>sa\<close>, leaves two movements with the amounts \<open>sa\<close> and the double
  nearest to \<open>A - sa\<close> (taken not to overflow), which sum to \<open>A\<close> up to the error of that
  one rounding, at most \<open>halfUlp (A - sa)\<close>. Each of the three currency values of the two
  halves is the original value scaled by the ratio of the half's amount to \<open>A\<close>, the
  division and the multiplication rounded: a proportional split, never a reconversion.
  The two sum to the original value up to the errors of the five roundings; they are not
  numbers when the original value is not a number, \<open>A\<close> is 0 or a rounding overflows.
  This holds for the shared-expense split (the original row keeps \<open>sa\<close>, the new row gets
  the rest) and for the re-categorization split with \<open>0 < sa < A\<close> (the new row gets \<open>sa\<close>,
  the original row keeps the rest). The proportional splitter is the one modelled from
  the specification.
\<close>

theorem split_is_proportional_in_double_arithmetic:
  assumes found: "findIndex (\<lambda>movement. ID movement = i) s = Some k"
    and amt: "split_amount info = Some sa"
    and fin: "finiteDouble (toDouble (AMOUNT (s ! k) - sa))"
  shows
    "(let result = splitMovement splitProportionally i info s
      in fst result = Inr (Some (getNextId s)) \<and> length (snd result) = Suc (length s) \<and>
         proportionalHalves (s ! k) sa (snd result ! k) (snd result ! length s))
     \<and>
     (0 < sa \<and> sa < AMOUNT (s ! k) \<longrightarrow>
      (let result = splitExpenseForRecategorization splitProportionally i info s
       in fst result = Inr (Some (getNextId s)) \<and> length (snd result) = Suc (length s) \<and>
          proportionalHalves (s ! k) sa (snd result ! length s) (snd result ! k)))"
    (is "?shared \<and> (?valid \<longrightarrow> ?recat)")
proof -
  let ?ocv = "\<lparr>clpValue = CLP_VALUE (s ! k), usdValue = USD_VALUE (s ! k),
               gbpValue = GBP_VALUE (s ! k)\<rparr>"
  let ?A = "AMOUNT (s ! k)"
  from found have k: "k < length s" by (simp add: findIndex_Some)
  from amt have ts: "toNumber (split_amount info) = sa" by (simp add: toNumber_def)
  have ocv: "?ocv = valuesOf (s ! k)" by (simp add: valuesOf_def)
  have shared: ?shared
  proof -
    from splitMovement_found[OF found, of splitProportionally info]
    obtain f new where
      eq: "splitMovement splitProportionally i info s
             = (Inr (Some (getNextId s)), setValues (k + 2) f s @ [new])"
      and rows:
      "\<forall>r. AMOUNT (f r) = toNumber (split_amount info)"
      "AMOUNT new = toDouble (?A - toNumber (split_amount info))"
      "\<forall>r. CLP_VALUE (f r) = clpValue (splitProportionally ?A
             (toNumber (split_amount info)) ?ocv)"
      "\<forall>r. USD_VALUE (f r) = usdValue (splitProportionally ?A
             (toNumber (split_amount info)) ?ocv)"
      "\<forall>r. GBP_VALUE (f r) = gbpValue (splitProportionally ?A
             (toNumber (split_amount info)) ?ocv)"
      "CLP_VALUE new = clpValue (splitProportionally ?A
             (toDouble (?A - toNumber (split_amount info))) ?ocv)"
      "USD_VALUE new = usdValue (splitProportionally ?A
             (toDouble (?A - toNumber (split_amount info))) ?ocv)"
      "GBP_VALUE new = gbpValue (splitProportionally ?A
             (toDouble (?A - toNumber (split_amount info))) ?ocv)"
      by blast
    have halves: "proportionalHalves (s ! k) sa (f (s ! k)) new"
    proof (rule proportionalHalves_I)
      show "AMOUNT (f (s ! k)) = sa" using rows(1) by (simp add: ts)
      show "AMOUNT new = toDouble (?A - sa)" using rows(2) by (simp add: ts)
      show "valuesOf (f (s ! k)) = splitProportionally ?A sa (valuesOf (s ! k))"
        using rows(3,4,5) unfolding ts ocv
        by (simp add: valuesOf_def splitProportionally_def)
      show "valuesOf new = splitProportionally ?A (toDouble (?A - sa)) (valuesOf (s ! k))"
        using rows(6,7,8) unfolding ts ocv
        by (simp add: valuesOf_def splitProportionally_def)
    qed
    show ?thesis
      unfolding Let_def eq fst_conv snd_conv
        nth_setValues_append[OF k] nth_setValues_append_last
      using halves by simp
  qed
  have recat: "?valid \<longrightarrow> ?recat"
  proof
    assume valid: ?valid
    then have nv: "\<not> (toNumber (split_amount info) \<ge> ?A \<or>
                      toNumber (split_amount info) \<le> 0)"
      by (auto simp: ts)
    from splitExpense_found[OF found nv, of splitProportionally]
    obtain f new where
      eq: "splitExpenseForRecategorization splitProportionally i info s
             = (Inr (Some (getNextId s)), setValues (k + 2) f s @ [new])"
      and rows:
        "\<forall>r. AMOUNT (f r) = toDouble (?A - toNumber (split_amount info))"
        "AMOUNT new = toNumber (split_amount info)"
        "\<forall>r. CLP_VALUE (f r) = clpValue (splitProportionally ?A
               (toDouble (?A - toNumber (split_amount info))) ?ocv)"
        "\<forall>r. USD_VALUE (f r) = usdValue (splitProportionally ?A
               (toDouble (?A - toNumber (split_amount info))) ?ocv)"
        "\<forall>r. GBP_VALUE (f r) = gbpValue (splitProportionally ?A
               (toDouble (?A - toNumber (split_amount info))) ?ocv)"
        "CLP_VALUE new = clpValue (splitProportionally ?A
               (toNumber (split_amount info)) ?ocv)"
        "USD_VALUE new = usdValue (splitProportionally ?A
               (toNumber (split_amount info)) ?ocv)"
        "GBP_VALUE new = gbpValue (splitProportionally ?A
               (toNumber (split_amount info)) ?ocv)"
      by blast
    have halves: "proportionalHalves (s ! k) sa new (f (s ! k))"
    proof (rule proportionalHalves_I)
      show "AMOUNT new = sa" using rows(2) by (simp add: ts)
      show "AMOUNT (f (s ! k)) = toDouble (?A - sa)" using rows(1) by (simp add: ts)
      show "valuesOf new = splitProportionally ?A sa (valuesOf (s ! k))"
        using rows(6,7,8) unfolding ts ocv
        by (simp add: valuesOf_def splitProportionally_def)
      show "valuesOf (f (s ! k))
              = splitProportionally ?A (toDouble (?A - sa)) (valuesOf (s ! k))"
        using rows(3,4,5) unfolding ts ocv
        by (simp add: valuesOf_def splitProportionally_def)
    qed
    show ?recat
      unfolding Let_def eq fst_conv snd_conv
        nth_setValues_append[OF k] nth_setValues_append_last
      using halves by simp
  qed
  show ?thesis by (rule conjI[OF shared recat])
qed

theorem split_is_proportional_in_double_arithmetic_witness:
  "findIndex (\<lambda>movement. ID movement = 1) [exampleRow 1 100] = Some 0 \<and>
   split_amount (exampleSplit 25) = Some 25 \<and>
   finiteDouble (toDouble (AMOUNT ([exampleRow 1 100] ! 0) - 25)) \<and>
   0 < (25 :: rat) \<and> 25 < AMOUNT ([exampleRow 1 100] ! 0) \<and>
   CLP_VALUE ([exampleRow 1 100] ! 0) = Num 90000 \<and>
   AMOUNT (snd (splitMovement splitProportionally 1 (exampleSplit 25) [exampleRow 1 100]) ! 0) = 25 \<and>
   AMOUNT (snd (splitMovement splitProportionally 1 (exampleSplit 25) [exampleRow 1 100]) ! 1) = 75 \<and>
   CLP_VALUE (snd (splitMovement splitProportionally 1 (exampleSplit 25) [exampleRow 1 100]) ! 0)
     = Num 22500 \<and>
   CLP_VALUE (snd (splitMovement splitProportionally 1 (exampleSplit 25) [exampleRow 1 100]) ! 1)
     = Num 67500 \<and>
   AMOUNT (snd (splitExpenseForRecategorization splitProportionally 1 (exampleSplit 25)
                  [exampleRow 1 100]) ! 0) = 75 \<and>
   AMOUNT (snd (splitExpenseForRecategorization splitProportionally 1 (exampleSplit 25)
                  [exampleRow 1 100]) ! 1) = 25 \<and>
   CLP_VALUE (snd (splitExpenseForRecategorization splitProportionally 1 (exampleSplit 25)
                  [exampleRow 1 100]) ! 1) = Num 22500"
proof -
  have w75: "toDouble 75 = 75"
    using toDouble_eqI[of 6 "75" 5277655813324800] by simp
  have wq: "toDouble (1 / 4) = 1 / 4"
    using toDouble_eqI[of "- 2" "1 / 4" 4503599627370496] by simp
  have wt: "toDouble (3 / 4) = 3 / 4"
    using toDouble_eqI[of "- 1" "3 / 4" 6755399441055744] by simp
  have w1: "toDouble 22500 = 22500"
    using toDouble_eqI[of 14 "22500" 6184752906240000] by simp
  have w2: "toDouble 67500 = 67500"
    using toDouble_eqI[of 16 "67500" 4638564679680000] by simp
  have h1: "findIndex (\<lambda>movement. ID movement = 1) [exampleRow 1 100] = Some 0"
    by (simp add: exampleRow_def)
  have h0: "split_amount (exampleSplit 25) = Some 25" by (simp add: exampleSplit_def)
  have a: "AMOUNT (exampleRow 1 100) = 100" by (simp add: exampleRow_def)
  have c: "clpValue (valuesOf (exampleRow 1 100)) = Num 90000"
    by (simp add: exampleRow_def valuesOf_def)
  have v: "0 < (25 :: rat) \<and> 25 < AMOUNT ([exampleRow 1 100] ! 0)" by (simp add: a)
  have hf: "finiteDouble (toDouble (AMOUNT ([exampleRow 1 100] ! 0) - 25))"
    by (simp add: a w75 finiteDouble_def)
  note T = split_is_proportional_in_double_arithmetic
    [OF h1 h0 hf, unfolded Let_def proportionalHalves_def]
  from T v have
    "AMOUNT (snd (splitMovement splitProportionally 1 (exampleSplit 25) [exampleRow 1 100]) ! 0) = 25"
    "AMOUNT (snd (splitMovement splitProportionally 1 (exampleSplit 25) [exampleRow 1 100]) ! 1) = 75"
    "clpValue (valuesOf (snd (splitMovement splitProportionally 1 (exampleSplit 25)
        [exampleRow 1 100]) ! 0)) = Num 22500"
    "clpValue (valuesOf (snd (splitMovement splitProportionally 1 (exampleSplit 25)
        [exampleRow 1 100]) ! 1)) = Num 67500"
    "AMOUNT (snd (splitExpenseForRecategorization splitProportionally 1 (exampleSplit 25)
                  [exampleRow 1 100]) ! 0) = 75"
    "AMOUNT (snd (splitExpenseForRecategorization splitProportionally 1 (exampleSplit 25)
                  [exampleRow 1 100]) ! 1) = 25"
    "clpValue (valuesOf (snd (splitExpenseForRecategorization splitProportionally 1
        (exampleSplit 25) [exampleRow 1 100]) ! 1)) = Num 22500"
    by (simp_all add: a c w75 wq wt w1 w2 finiteDouble_def)
  with h1 h0 hf v show ?thesis by (simp add: valuesOf_def exampleRow_def)
qed

text \<open>
  Claim C2. When the movement exists and the split amount \<open>sa\<close> is not strictly between
  0 and the amount \<open>A\<close> of the movement (\<open>sa \<le> 0\<close> or \<open>sa \<ge> A\<close>), the re-categorization
  split returns \<^verbatim>\<open>null\<close> and the sheet is exactly as before: no row is added and no
  cell of any row changes.
\<close>

theorem recategorization_split_rejects_invalid_amount:
  assumes "findIndex (\<lambda>movement. ID movement = i) s = Some k"
    and "toNumber (split_amount info) \<le> 0 \<or> toNumber (split_amount info) \<ge> AMOUNT (s ! k)"
  shows "splitExpenseForRecategorization scv i info s = (Inr None, s)"
  using assms by (intro splitExpense_invalid) auto

theorem recategorization_split_rejects_invalid_amount_witness:
  "findIndex (\<lambda>movement. ID movement = 1) [exampleRow 1 50] = Some 0 \<and>
   toNumber (split_amount (exampleSplit 60)) \<ge> AMOUNT ([exampleRow 1 50] ! 0) \<and>
   splitExpenseForRecategorization splitProportionally 1 (exampleSplit 60) [exampleRow 1 50]
     = (Inr None, [exampleRow 1 50])"
proof -
  have h1: "findIndex (\<lambda>movement. ID movement = 1) [exampleRow 1 50] = Some 0"
    by (simp add: exampleRow_def)
  have h2: "toNumber (split_amount (exampleSplit 60)) \<ge> AMOUNT ([exampleRow 1 50] ! 0)"
    by (simp add: exampleRow_def exampleSplit_def toNumber_def)
  from h2 have h2': "toNumber (split_amount (exampleSplit 60)) \<le> 0 \<or>
      toNumber (split_amount (exampleSplit 60)) \<ge> AMOUNT ([exampleRow 1 50] ! 0)" ..
  from recategorization_split_rejects_invalid_amount [OF h1 h2', of splitProportionally] h1 h2
  show ?thesis by blast
qed

text \<open>
  Claim C7, at a failing input. The shared-expense split does not check the split amount
  against the amount of the movement, as the re-categorization split does. A movement of
  50 USD split with a personal portion of 60 gets a new debit movement whose amount is
  \<open>- 10\<close>, where the re-categorization split refuses the same amounts.
\<close>

theorem splitMovement_makes_negative_amount:
  "(let s = [exampleRow 1 50];
        result = splitMovement splitProportionally 1 (exampleSplit 60) s
    in AMOUNT (s ! 0) = 50 \<and> CURRENCY (s ! 0) = ''USD'' \<and>
       fst result = Inr (Some 2) \<and> length (snd result) = 2 \<and>
       AMOUNT (snd result ! 1) = - 10 \<and>
       splitExpenseForRecategorization splitProportionally 1 (exampleSplit 60) s
         = (Inr None, s))"
proof -
  have h1: "findIndex (\<lambda>movement. ID movement = 1) [exampleRow 1 50] = Some 0"
    by (simp add: exampleRow_def)
  have n: "getNextId [exampleRow 1 50] = 2"
    by (simp add: getNextId_def getLastRow_def exampleRow_def)
  from splitMovement_found[OF h1, of splitProportionally "exampleSplit 60"]
  obtain f new where
    eq: "splitMovement splitProportionally 1 (exampleSplit 60) [exampleRow 1 50]
           = (Inr (Some (getNextId [exampleRow 1 50])),
              setValues (0 + 2) f [exampleRow 1 50] @ [new])"
    and am: "AMOUNT new
               = toDouble (AMOUNT ([exampleRow 1 50] ! 0) - toNumber (split_amount (exampleSplit 60)))"
    by blast
  have td: "toDouble (- 10) = - 10"
    using toDouble_eqI[of 3 "- 10" "- 5629499534213120"] by simp
  have inv: "splitExpenseForRecategorization splitProportionally 1 (exampleSplit 60)
               [exampleRow 1 50] = (Inr None, [exampleRow 1 50])"
    by (rule splitExpense_invalid[OF h1]) (simp add: exampleRow_def exampleSplit_def toNumber_def)
  show ?thesis
    unfolding Let_def eq inv
    using am n by (simp add: exampleRow_def exampleSplit_def toNumber_def nth_append td)
qed

lemma distinct_after_split_shape:
  assumes d: "distinct (map ID s)" and f: "\<forall>r. ID (f r) = ID r" and n: "ID new = getNextId s"
  shows "distinct (map ID (setValues k f s @ [new]))"
proof -
  from f have m: "map ID (setValues k f s) = map ID s" by (intro map_ID_setValues) simp
  have "getNextId s \<notin> ID ` set s" using getNextId_fresh[of s] by (simp add: idExists_iff)
  then have "getNextId s \<notin> set (map ID s)" by simp
  with d m n show ?thesis by simp
qed

lemma splitMovement_distinct:
  assumes d: "distinct (map ID s)"
  shows "distinct (map ID (snd (splitMovement scv i info s)))"
proof (cases "findIndex (\<lambda>movement. ID movement = i) s")
  case None
  with d show ?thesis by (simp add: splitMovement_notfound)
next
  case (Some k)
  from splitMovement_found[OF Some, of scv info]
  obtain f new where
    "splitMovement scv i info s = (Inr (Some (getNextId s)), setValues (k + 2) f s @ [new])"
    "\<forall>r. ID (f r) = ID r" "ID new = getNextId s"
    by blast
  with distinct_after_split_shape[OF d, of f new "k + 2"] show ?thesis by simp
qed

lemma splitExpense_distinct:
  assumes d: "distinct (map ID s)"
  shows "distinct (map ID (snd (splitExpenseForRecategorization scv i info s)))"
proof (cases "findIndex (\<lambda>movement. ID movement = i) s")
  case None
  with d show ?thesis by (simp add: splitExpense_notfound)
next
  case (Some k)
  show ?thesis
  proof (cases "toNumber (split_amount info) \<ge> AMOUNT (s ! k) \<or> toNumber (split_amount info) \<le> 0")
    case True
    from splitExpense_invalid[OF Some True] d show ?thesis by simp
  next
    case False
    from splitExpense_found[OF Some False, of scv]
    obtain f new where
      "splitExpenseForRecategorization scv i info s
         = (Inr (Some (getNextId s)), setValues (k + 2) f s @ [new])"
      "\<forall>r. ID (f r) = ID r" "ID new = getNextId s"
      by blast
    with distinct_after_split_shape[OF d, of f new "k + 2"] show ?thesis by simp
  qed
qed

lemma addMovementsBatch_distinct:
  "distinct (map ID s) \<Longrightarrow> distinct (map ID (snd (addMovementsBatch Date_parse batch s)))"
  by (simp add: addMovementsBatch_def addEach_distinct)

section \<open>Identity\<close>

text \<open>
  Claim C5. Inserting a movement whose id some row of the sheet already has throws the
  duplicate-id error and leaves the sheet as it was; otherwise the movement is appended as
  the last row. Batch insertion and the two splits add rows through this insert only, so
  each of them keeps the ids of the sheet pairwise distinct, whatever its outcome.
\<close>

theorem addMovement_is_the_uniqueness_check:
  "(if \<exists>m \<in> set s. ID m = ID r
    then addMovement r s = (Inl (DuplicateId (ID r)), s)
    else addMovement r s = (Inr (), s @ [r])) \<and>
   (distinct (map ID s) \<longrightarrow>
      distinct (map ID (snd (addMovement r s))) \<and>
      distinct (map ID (snd (addMovementsBatch Date_parse batch s))) \<and>
      distinct (map ID (snd (splitMovement scv i info s))) \<and>
      distinct (map ID (snd (splitExpenseForRecategorization scv i info s))))"
proof (intro conjI impI)
  show "if \<exists>m \<in> set s. ID m = ID r
    then addMovement r s = (Inl (DuplicateId (ID r)), s)
    else addMovement r s = (Inr (), s @ [r])"
    by (auto simp: addMovement_def Let_def idExists_iff image_iff)
qed (simp_all add: addMovement_distinct addMovementsBatch_distinct splitMovement_distinct
       splitExpense_distinct)

theorem addMovement_is_the_uniqueness_check_witness:
  "(\<exists>m \<in> set [exampleRow 1 100]. ID m = ID (exampleRow 1 5)) \<and>
   addMovement (exampleRow 1 5) [exampleRow 1 100] = (Inl (DuplicateId 1), [exampleRow 1 100]) \<and>
   distinct (map ID [exampleRow 1 100]) \<and>
   distinct (map ID (snd (splitMovement splitProportionally 1 (exampleSplit 30)
                            [exampleRow 1 100])))"
proof -
  have h1: "\<exists>m \<in> set [exampleRow 1 100]. ID m = ID (exampleRow 1 5)"
    by (simp add: exampleRow_def)
  have h2: "distinct (map ID [exampleRow 1 100])" by simp
  have i: "ID (exampleRow 1 5) = 1" by (simp add: exampleRow_def)
  note T = addMovement_is_the_uniqueness_check
    [of "[exampleRow 1 100]" "exampleRow 1 5" "\<lambda>t. None" "[]" splitProportionally 1
        "exampleSplit 30"]
  from T h1 h2 i show ?thesis by (simp del: distinct.simps)
qed

theorem addMovement_appends_example:
  "\<not> (\<exists>m \<in> set [exampleRow 1 100]. ID m = ID (exampleRow 2 5)) \<and>
   addMovement (exampleRow 2 5) [exampleRow 1 100]
     = (Inr (), [exampleRow 1 100, exampleRow 2 5])"
  by (simp add: addMovement_def idExists_def getLastRow_def exampleRow_def)

text \<open>
  Claim C8, as stated, at a sheet whose ids have a gap: with the ids 1 and 3 in use the
  smallest unused id is 2, and \<^verbatim>\<open>getNextId\<close> returns 4.
\<close>

theorem getNextId_is_not_the_smallest_unused_id:
  "getNextId [exampleRow 1 10, exampleRow 3 10] = 4 \<and>
   smallestUnusedId [exampleRow 1 10, exampleRow 3 10] = 2 \<and>
   getNextId [exampleRow 1 10, exampleRow 3 10]
     \<noteq> smallestUnusedId [exampleRow 1 10, exampleRow 3 10]"
proof -
  have u: "[1..<4] = [1, 2, 3]" by (simp add: upt_rec)
  have a: "getNextId [exampleRow 1 10, exampleRow 3 10] = 4"
    by (simp add: getNextId_def getLastRow_def exampleRow_def)
  have b: "smallestUnusedId [exampleRow 1 10, exampleRow 3 10] = 2"
    by (simp add: smallestUnusedId_def idExists_def getLastRow_def exampleRow_def u)
  from a b show ?thesis by simp
qed

text \<open>
  Claim C8, amended. \<^verbatim>\<open>getNextId\<close> is a function of the sheet alone: one more than the
  largest positive id of the sheet, which is the largest id when some id is positive, and
  1 when there is none, as on the empty sheet. The id returned is above every id of the
  sheet and is not in use. A row inserted under it is accepted and raises the next id by
  one, and a split that happens uses it for its new row and raises the next id by one: ids
  so assigned increase strictly and none is used twice.
\<close>

theorem getNextId_is_above_every_id:
  "getNextId s = Max (insert 0 (ID ` set s)) + 1 \<and>
   ((\<exists>m \<in> set s. 0 < ID m) \<longrightarrow> getNextId s = Max (ID ` set s) + 1) \<and>
   (s = [] \<longrightarrow> getNextId s = 1) \<and>
   (\<forall>m \<in> set s. ID m < getNextId s) \<and>
   \<not> idExists (getNextId s) s \<and>
   (ID r = getNextId s \<longrightarrow>
      addMovement r s = (Inr (), s @ [r]) \<and> getNextId (s @ [r]) = getNextId s + 1) \<and>
   (\<forall>n. fst (splitMovement scv i info s) = Inr (Some n) \<longrightarrow>
      n = getNextId s \<and> getNextId (snd (splitMovement scv i info s)) = n + 1) \<and>
   (\<forall>n. fst (splitExpenseForRecategorization scv i info s) = Inr (Some n) \<longrightarrow>
      n = getNextId s \<and>
      getNextId (snd (splitExpenseForRecategorization scv i info s)) = n + 1)"
proof (intro conjI impI allI ballI)
  show "getNextId s = Max (insert 0 (ID ` set s)) + 1" by (rule getNextId_Max)
next
  assume "\<exists>m \<in> set s. 0 < ID m"
  then obtain m where m: "m \<in> set s" "0 < ID m" by blast
  then have ne: "ID ` set s \<noteq> {}" by auto
  have "ID m \<le> Max (ID ` set s)" using m by (intro Max_ge) auto
  with m have "0 \<le> Max (ID ` set s)" by linarith
  then have "Max (insert 0 (ID ` set s)) = Max (ID ` set s)"
    using ne by (simp add: max_def)
  then show "getNextId s = Max (ID ` set s) + 1" by (simp add: getNextId_Max)
next
  assume "s = []" then show "getNextId s = 1" by (simp add: getNextId_def getLastRow_def)
next
  fix m assume "m \<in> set s" then show "ID m < getNextId s" by (rule getNextId_gt)
next
  show "\<not> idExists (getNextId s) s" by (rule getNextId_fresh)
next
  assume "ID r = getNextId s"
  then show "addMovement r s = (Inr (), s @ [r])"
    by (intro addMovement_fresh) (simp add: getNextId_fresh)
next
  assume "ID r = getNextId s"
  then show "getNextId (s @ [r]) = getNextId s + 1" by (rule getNextId_append_fresh)
next
  fix n assume a: "fst (splitMovement scv i info s) = Inr (Some n)"
  show "n = getNextId s"
  proof (cases "findIndex (\<lambda>movement. ID movement = i) s")
    case None with a show ?thesis by (simp add: splitMovement_notfound)
  next
    case (Some k)
    from splitMovement_found[OF Some, of scv info] a show ?thesis by auto
  qed
next
  fix n assume a: "fst (splitMovement scv i info s) = Inr (Some n)"
  show "getNextId (snd (splitMovement scv i info s)) = n + 1"
  proof (cases "findIndex (\<lambda>movement. ID movement = i) s")
    case None with a show ?thesis by (simp add: splitMovement_notfound)
  next
    case (Some k)
    from splitMovement_found[OF Some, of scv info]
    obtain f new where
      eq: "splitMovement scv i info s
             = (Inr (Some (getNextId s)), setValues (k + 2) f s @ [new])"
      and f: "\<forall>r. ID (f r) = ID r" and new: "ID new = getNextId s"
      by blast
    from f have "map ID (setValues (k + 2) f s) = map ID s" by (intro map_ID_setValues) simp
    then have g: "getNextId (setValues (k + 2) f s) = getNextId s" by (rule getNextId_cong)
    with new have "ID new = getNextId (setValues (k + 2) f s)" by simp
    from getNextId_append_fresh[OF this] g a eq show ?thesis by simp
  qed
next
  fix n assume a: "fst (splitExpenseForRecategorization scv i info s) = Inr (Some n)"
  show "n = getNextId s"
  proof (cases "findIndex (\<lambda>movement. ID movement = i) s")
    case None with a show ?thesis by (simp add: splitExpense_notfound)
  next
    case (Some k)
    show ?thesis
    proof (cases "toNumber (split_amount info) \<ge> AMOUNT (s ! k) \<or> toNumber (split_amount info) \<le> 0")
      case True
      from splitExpense_invalid[OF Some True, of scv] a show ?thesis by simp
    next
      case False
      from splitExpense_found[OF Some False, of scv] a show ?thesis by auto
    qed
  qed
next
  fix n assume a: "fst (splitExpenseForRecategorization scv i info s) = Inr (Some n)"
  show "getNextId (snd (splitExpenseForRecategorization scv i info s)) = n + 1"
  proof (cases "findIndex (\<lambda>movement. ID movement = i) s")
    case None with a show ?thesis by (simp add: splitExpense_notfound)
  next
    case (Some k)
    show ?thesis
    proof (cases "toNumber (split_amount info) \<ge> AMOUNT (s ! k) \<or> toNumber (split_amount info) \<le> 0")
      case True
      from splitExpense_invalid[OF Some True, of scv] a show ?thesis by simp
    next
      case False
      from splitExpense_found[OF Some False, of scv]
      obtain f new where
        eq: "splitExpenseForRecategorization scv i info s
               = (Inr (Some (getNextId s)), setValues (k + 2) f s @ [new])"
        and f: "\<forall>r. ID (f r) = ID r" and new: "ID new = getNextId s"
        by blast
      from f have "map ID (setValues (k + 2) f s) = map ID s" by (intro map_ID_setValues) simp
      then have g: "getNextId (setValues (k + 2) f s) = getNextId s" by (rule getNextId_cong)
      with new have "ID new = getNextId (setValues (k + 2) f s)" by simp
      from getNextId_append_fresh[OF this] g a eq show ?thesis by simp
    qed
  qed
qed

theorem getNextId_is_above_every_id_witness:
  "(\<exists>m \<in> set [exampleRow 1 10, exampleRow 3 10]. 0 < ID m) \<and>
   getNextId [exampleRow 1 10, exampleRow 3 10] = 4 \<and>
   \<not> idExists 4 [exampleRow 1 10, exampleRow 3 10] \<and>
   ID (exampleRow 4 7) = getNextId [exampleRow 1 10, exampleRow 3 10] \<and>
   addMovement (exampleRow 4 7) [exampleRow 1 10, exampleRow 3 10]
     = (Inr (), [exampleRow 1 10, exampleRow 3 10, exampleRow 4 7]) \<and>
   getNextId [exampleRow 1 10, exampleRow 3 10, exampleRow 4 7] = 5 \<and>
   fst (splitMovement splitProportionally 3 (exampleSplit 4) [exampleRow 1 10, exampleRow 3 10])
     = Inr (Some 4) \<and>
   getNextId (snd (splitMovement splitProportionally 3 (exampleSplit 4)
                     [exampleRow 1 10, exampleRow 3 10])) = 5"
proof -
  have h1: "\<exists>m \<in> set [exampleRow 1 10, exampleRow 3 10]. 0 < ID m"
    by (simp add: exampleRow_def)
  have n: "getNextId [exampleRow 1 10, exampleRow 3 10] = 4"
    by (simp add: getNextId_def getLastRow_def exampleRow_def)
  have h2: "ID (exampleRow 4 7) = getNextId [exampleRow 1 10, exampleRow 3 10]"
    by (simp add: n) (simp add: exampleRow_def)
  have fi: "findIndex (\<lambda>movement. ID movement = 3) [exampleRow 1 10, exampleRow 3 10] = Some 1"
    by (simp add: exampleRow_def)
  from splitMovement_found[OF fi, of splitProportionally "exampleSplit 4"] n
  have h3: "fst (splitMovement splitProportionally 3 (exampleSplit 4)
                  [exampleRow 1 10, exampleRow 3 10]) = Inr (Some 4)"
    by auto
  note T = getNextId_is_above_every_id
    [of "[exampleRow 1 10, exampleRow 3 10]" "exampleRow 4 7" splitProportionally 3
        "exampleSplit 4"]
  from T h1 h2 h3 n show ?thesis by (simp del: getNextId_Max)
qed

section \<open>Settlement\<close>

lemma nth_setValues_same:
  "k < length s \<Longrightarrow> setValues (k + 2) f s ! k = f (s ! k)"
  "k < length s \<Longrightarrow> setValues (Suc (Suc k)) f s ! k = f (s ! k)"
  by (simp_all add: setValues_def)

lemma nth_setValues_field:
  "(\<And>r. sel (f r) = sel r) \<Longrightarrow> sel (setValues k f s ! j) = sel (s ! j)"
proof -
  assume a: "\<And>r. sel (f r) = sel r"
  show ?thesis
  proof (cases "k - 2 < length s")
    case True
    then show ?thesis by (cases "j = k - 2") (simp_all add: setValues_def a)
  next
    case False
    then have "length s \<le> k - 2" by simp
    then show ?thesis by (simp only: setValues_def list_update_beyond)
  qed
qed

lemma findIndex_by_ID:
  "findIndex (\<lambda>movement. ID movement = x) s = findIndex (\<lambda>v. v = x) (map ID s)"
  by (induction s) simp_all

lemma findIndex_setValues:
  "(\<And>r. ID (f r) = ID r) \<Longrightarrow>
   findIndex (\<lambda>movement. ID movement = x) (setValues k f s)
     = findIndex (\<lambda>movement. ID movement = x) s"
  by (simp only: findIndex_by_ID[of x "setValues k f s"] findIndex_by_ID[of x s]
        map_ID_setValues)

lemma findIndex_of_member:
  assumes d: "distinct (map ID s)" and m: "m \<in> set s"
  shows "\<exists>j. findIndex (\<lambda>movement. ID movement = ID m) s = Some j \<and> s ! j = m"
proof -
  from m obtain j where j: "j < length s" "s ! j = m" by (auto simp: in_set_conv_nth)
  from findIndex_distinct[OF d j(1)] j(2) show ?thesis by auto
qed

lemma js_ge_js_number:
  "\<bar>c\<bar> < 2 ^ 1024 \<Longrightarrow> js_ge (js_number y) c \<longleftrightarrow> c \<le> y"
  by (auto simp: js_number_def js_ge_def finiteDouble_def abs_if split: if_splits)

lemma double_95_percent_finite: "\<bar>toDouble (95 / 100)\<bar> < 2 ^ 1024"
proof -
  have "toDouble (95 / 100) = 4278419646001971 / 4503599627370496"
    using toDouble_eqI[of "- 1" "95 / 100" 8556839292003942] by simp
  then show ?thesis by simp
qed

lemma js_ratio_ge:
  "d \<noteq> 0 \<Longrightarrow> \<bar>c\<bar> < 2 ^ 1024 \<Longrightarrow> js_ge (js_div r d) c \<longleftrightarrow> c \<le> toDouble (r / d)"
proof -
  assume d: "d \<noteq> 0" and c: "\<bar>c\<bar> < 2 ^ 1024"
  from d have "js_div r d = js_number (toDouble (r / d))" by (simp add: js_div_def)
  then show ?thesis by (simp only: js_ge_js_number[OF c])
qed

lemma js_percentage_ge:
  "js_ge (js_times (js_div r d) 100) 95 \<longleftrightarrow> js_ge (js_div r d) (toDouble (95 / 100))"
proof (cases "d = 0")
  case True
  then show ?thesis by (simp add: js_ge_def js_times_def js_div_def)
next
  case False
  let ?q = "toDouble (r / d)"
  have small: "\<bar>95 :: rat\<bar> < 2 ^ 1024" by simp
  show ?thesis
  proof (cases "finiteDouble ?q")
    case True
    with False have q: "js_div r d = Finite ?q" by (simp add: js_div_def js_number_def)
    have t: "js_times (Finite ?q) 100 = js_number (toDouble (?q * 100))"
      by (simp add: js_times_def)
    have "js_ge (js_times (js_div r d) 100) 95 \<longleftrightarrow> 95 \<le> toDouble (?q * 100)"
      unfolding q t by (rule js_ge_js_number[OF small])
    also have "\<dots> \<longleftrightarrow> toDouble (95 / 100) \<le> ?q" by (rule percentage_threshold)
    also have "\<dots> \<longleftrightarrow> js_ge (js_div r d) (toDouble (95 / 100))"
      by (simp only: q js_ge_def jsnum.case)
    finally show ?thesis .
  next
    case False
    with \<open>d \<noteq> 0\<close> show ?thesis
      by (simp add: js_div_def js_times_def js_number_def js_ge_def)
  qed
qed

lemma updateMovementSettledId_found:
  "findIndex (\<lambda>movement. ID movement = x) s = Some i \<Longrightarrow>
   updateMovementSettledId x y s
     = setValues (i + 2) (\<lambda>r. r\<lparr>SETTLED_MOVEMENT_ID := Some y\<rparr>) s"
  by (simp add: updateMovementSettledId_def)

lemma updateMovementStatus_found:
  "findIndex (\<lambda>movement. ID movement = x) s = Some j \<Longrightarrow>
   updateMovementStatus x st s = setValues (j + 2) (\<lambda>r. r\<lparr>STATUS := st\<rparr>) s"
  by (simp add: updateMovementStatus_def)

lemma settlement_closed_form:
  assumes rep: "findIndex (\<lambda>movement. ID movement = repId) s = Some i"
    and matched: "matchDebitRepayment
             \<lparr>amount = AMOUNT rep, currency = CURRENCY rep,
              userDescription = USER_DESCRIPTION rep, comment = COMMENT rep,
              timestamp = TIMESTAMP rep\<rparr>
             (getMovementsPendingDirectSettlement s) = Some debitId"
    and nz: "debitId \<noteq> 0"
    and pend: "find (\<lambda>debit. ID debit = debitId) (getMovementsPendingDirectSettlement s)
             = Some debit"
    and j: "findIndex (\<lambda>movement. ID movement = debitId) s = Some j"
  shows "processDebitRepaymentSettlement matchDebitRepayment repId rep s =
     (if js_ge (js_times (js_div (AMOUNT rep) (AMOUNT debit)) 100) 95
      then setValues (j + 2) (\<lambda>r. r\<lparr>STATUS := STATUS_SETTLED\<rparr>)
             (setValues (i + 2) (\<lambda>r. r\<lparr>SETTLED_MOVEMENT_ID := Some debitId\<rparr>) s)
      else setValues (i + 2) (\<lambda>r. r\<lparr>SETTLED_MOVEMENT_ID := Some debitId\<rparr>) s)"
proof -
  from pend have ne: "getMovementsPendingDirectSettlement s \<noteq> []" by (auto simp: find_None_iff)
  have j': "findIndex (\<lambda>movement. ID movement = debitId)
              (setValues (i + 2) (\<lambda>r. r\<lparr>SETTLED_MOVEMENT_ID := Some debitId\<rparr>) s) = Some j"
    using j by (simp add: findIndex_setValues)
  show ?thesis
    using ne matched nz pend
    by (simp add: processDebitRepaymentSettlement_def Let_def
          updateMovementSettledId_found[OF rep] updateMovementStatus_found[OF j']
          del: add_2_eq_Suc add_2_eq_Suc')
qed

lemma find_Some_mem: "find P xs = Some x \<Longrightarrow> x \<in> set xs"
  by (auto simp: find_Some_iff)

lemma settlement_of_decimals:
  assumes c: "js_ge (js_times (js_div r d) 100) 95 \<longleftrightarrow> reached"
  shows "distinct (map ID [exampleDecimalDebit d, exampleDecimalRepayment r]) \<and>
   exampleDecimalDebit d
     \<in> set (getMovementsPendingDirectSettlement
              [exampleDecimalDebit d, exampleDecimalRepayment r]) \<and>
   ID (exampleDecimalDebit d) = 1 \<and>
   AMOUNT (exampleDecimalDebit d) = d \<and> AMOUNT (exampleDecimalRepayment r) = r \<and>
   SETTLED_MOVEMENT_ID
     (processDebitRepaymentSettlement (exampleMatcher 1) 2 (exampleDecimalRepayment r)
        [exampleDecimalDebit d, exampleDecimalRepayment r] ! 1) = Some 1 \<and>
   STATUS
     (processDebitRepaymentSettlement (exampleMatcher 1) 2 (exampleDecimalRepayment r)
        [exampleDecimalDebit d, exampleDecimalRepayment r] ! 0)
     = (if reached then STATUS_SETTLED else STATUS_PENDING_DIRECT_SETTLEMENT)"
proof -
  let ?t = "[exampleDecimalDebit d, exampleDecimalRepayment r]"
  have ids: "ID (exampleDecimalDebit d) = 1" "ID (exampleDecimalRepayment r) = 2"
    by (simp_all add: exampleDecimalDebit_def exampleDecimalRepayment_def
          exampleDecimalRow_fields)
  have am: "AMOUNT (exampleDecimalDebit d) = d" "AMOUNT (exampleDecimalRepayment r) = r"
    by (simp_all add: exampleDecimalDebit_def exampleDecimalRepayment_def
          exampleDecimalRow_fields)
  have std: "STATUS (exampleDecimalDebit d) = STATUS_PENDING_DIRECT_SETTLEMENT"
    and ty: "TYPE' (exampleDecimalDebit d) = MOVEMENT_TYPES_DEBIT"
      "TYPE' (exampleDecimalRepayment r) = MOVEMENT_TYPES_DEBIT_REPAYMENT"
    by (simp_all add: exampleDecimalDebit_def exampleDecimalRepayment_def)
  have e1: "distinct (map ID ?t)" by (simp add: ids)
  have rep: "findIndex (\<lambda>movement. ID movement = 2) ?t = Some 1"
    by (simp add: ids)
  have j: "findIndex (\<lambda>movement. ID movement = 1) ?t = Some 0"
    by (simp add: ids)
  have pend: "find (\<lambda>d. ID d = 1) (getMovementsPendingDirectSettlement ?t)
                 = Some (exampleDecimalDebit d)"
    by (simp add: getMovementsPendingDirectSettlement_def ids std ty)
  then have e2: "exampleDecimalDebit d \<in> set (getMovementsPendingDirectSettlement ?t)"
    by (rule find_Some_mem)
  have cf: "processDebitRepaymentSettlement (exampleMatcher 1) 2 (exampleDecimalRepayment r) ?t
              = (if reached
                 then setValues (0 + 2) (\<lambda>r. r\<lparr>STATUS := STATUS_SETTLED\<rparr>)
                        (setValues (1 + 2) (\<lambda>r. r\<lparr>SETTLED_MOVEMENT_ID := Some 1\<rparr>) ?t)
                 else setValues (1 + 2) (\<lambda>r. r\<lparr>SETTLED_MOVEMENT_ID := Some 1\<rparr>) ?t)"
    using settlement_closed_form
      [where matchDebitRepayment = "exampleMatcher 1" and rep = "exampleDecimalRepayment r",
       OF rep _ _ pend j] c
    by (simp add: exampleMatcher_def am)
  have e5: "SETTLED_MOVEMENT_ID
     (processDebitRepaymentSettlement (exampleMatcher 1) 2 (exampleDecimalRepayment r) ?t ! 1)
     = Some 1"
    unfolding cf by (simp add: setValues_def)
  have e6: "STATUS
     (processDebitRepaymentSettlement (exampleMatcher 1) 2 (exampleDecimalRepayment r) ?t ! 0)
     = (if reached then STATUS_SETTLED else STATUS_PENDING_DIRECT_SETTLEMENT)"
    unfolding cf using std by (simp add: setValues_def)
  show ?thesis
    by (intro conjI e1 e2 ids(1) am e5 e6)
qed

text \<open>
  Claim C3, at inputs where it fails. The matcher returns the id of a pending debit in
  each of four runs. When that id is 0, the run takes it for no match and records
  nothing on the repayment. When an expense that stands before the pending debit in the
  sheet has the same id, the reference is recorded and, the repayment being 96 against
  100, the status is written, but to the expense: the matched debit stays pending. When
  the sheet holds a debit of 2.20 and a repayment of 2.09, whose ratio is 0.95 in
  decimals, the percentage that the run computes in doubles is 94.99999999999999 (the
  fraction below), and the debit stays pending. When the sheet holds a debit of 1 and a
  repayment of 0.95, the amount stored for the repayment is the double nearest to 0.95,
  which is less than 0.95, and so is its ratio to 1; the percentage computed is 95 and
  the debit becomes settled.
\<close>

theorem settlement_needs_distinct_nonzero_ids_and_rounds_the_ratio:
  "exampleDebit\<lparr>ID := 0\<rparr>
     \<in> set (getMovementsPendingDirectSettlement [exampleDebit\<lparr>ID := 0\<rparr>, exampleRepayment 96]) \<and>
   SETTLED_MOVEMENT_ID (exampleRepayment 96) = None \<and>
   processDebitRepaymentSettlement (exampleMatcher 0) 2 (exampleRepayment 96)
     [exampleDebit\<lparr>ID := 0\<rparr>, exampleRepayment 96]
     = [exampleDebit\<lparr>ID := 0\<rparr>, exampleRepayment 96] \<and>
   exampleDebit
     \<in> set (getMovementsPendingDirectSettlement
              [exampleRow 1 100, exampleDebit, exampleRepayment 96]) \<and>
   ID exampleDebit = 1 \<and> ID (exampleRow 1 100) = 1 \<and>
   AMOUNT exampleDebit = 100 \<and> AMOUNT (exampleRepayment 96) = 96 \<and>
   SETTLED_MOVEMENT_ID
     (processDebitRepaymentSettlement (exampleMatcher 1) 2 (exampleRepayment 96)
        [exampleRow 1 100, exampleDebit, exampleRepayment 96] ! 2) = Some 1 \<and>
   STATUS
     (processDebitRepaymentSettlement (exampleMatcher 1) 2 (exampleRepayment 96)
        [exampleRow 1 100, exampleDebit, exampleRepayment 96] ! 1)
     = STATUS_PENDING_DIRECT_SETTLEMENT \<and>
   STATUS
     (processDebitRepaymentSettlement (exampleMatcher 1) 2 (exampleRepayment 96)
        [exampleRow 1 100, exampleDebit, exampleRepayment 96] ! 0) = STATUS_SETTLED \<and>
   distinct (map ID [exampleDecimalDebit (toDouble (220 / 100)),
                     exampleDecimalRepayment (toDouble (209 / 100))]) \<and>
   exampleDecimalDebit (toDouble (220 / 100))
     \<in> set (getMovementsPendingDirectSettlement
              [exampleDecimalDebit (toDouble (220 / 100)),
               exampleDecimalRepayment (toDouble (209 / 100))]) \<and>
   ID (exampleDecimalDebit (toDouble (220 / 100))) = 1 \<and>
   AMOUNT (exampleDecimalDebit (toDouble (220 / 100))) = toDouble (220 / 100) \<and>
   AMOUNT (exampleDecimalRepayment (toDouble (209 / 100))) = toDouble (209 / 100) \<and>
   (209 / 100) / (220 / 100) = (95 / 100 :: rat) \<and>
   js_times (js_div (toDouble (209 / 100)) (toDouble (220 / 100))) 100
     = Finite (6685030696878079 / 70368744177664) \<and>
   6685030696878079 / 70368744177664 < (95 :: rat) \<and>
   SETTLED_MOVEMENT_ID
     (processDebitRepaymentSettlement (exampleMatcher 1) 2
        (exampleDecimalRepayment (toDouble (209 / 100)))
        [exampleDecimalDebit (toDouble (220 / 100)),
         exampleDecimalRepayment (toDouble (209 / 100))] ! 1) = Some 1 \<and>
   STATUS
     (processDebitRepaymentSettlement (exampleMatcher 1) 2
        (exampleDecimalRepayment (toDouble (209 / 100)))
        [exampleDecimalDebit (toDouble (220 / 100)),
         exampleDecimalRepayment (toDouble (209 / 100))] ! 0)
     = STATUS_PENDING_DIRECT_SETTLEMENT \<and>
   distinct (map ID [exampleDecimalDebit 1, exampleDecimalRepayment (toDouble (95 / 100))]) \<and>
   exampleDecimalDebit 1
     \<in> set (getMovementsPendingDirectSettlement
              [exampleDecimalDebit 1, exampleDecimalRepayment (toDouble (95 / 100))]) \<and>
   ID (exampleDecimalDebit 1) = 1 \<and>
   AMOUNT (exampleDecimalDebit 1) = 1 \<and>
   AMOUNT (exampleDecimalRepayment (toDouble (95 / 100))) = toDouble (95 / 100) \<and>
   toDouble (95 / 100) / 1 < 95 / 100 \<and>
   js_times (js_div (toDouble (95 / 100)) 1) 100 = Finite 95 \<and>
   STATUS
     (processDebitRepaymentSettlement (exampleMatcher 1) 2
        (exampleDecimalRepayment (toDouble (95 / 100)))
        [exampleDecimalDebit 1, exampleDecimalRepayment (toDouble (95 / 100))] ! 0)
     = STATUS_SETTLED"
proof -
  have x96: "toDouble (24 / 25) = 1080863910568919 / 1125899906842624"
    using toDouble_eqI[of "- 1" "24 / 25" 8646911284551352] by simp
  have x96p: "toDouble (27021597764222975 / 281474976710656) = 96"
    using toDouble_eqI[of 6 "27021597764222975 / 281474976710656" 6755399441055744] by simp
  have vd: "toDouble (11 / 5) = 2476979795053773 / 1125899906842624"
    using toDouble_eqI[of 1 "11 / 5" 4953959590107546] by simp
  have vr: "toDouble (209 / 100) = 588282701325271 / 281474976710656"
    using toDouble_eqI[of 1 "209 / 100" 4706261610602168] by simp
  have vq: "toDouble (2353130805301084 / 2476979795053773) = 8556839292003941 / 9007199254740992"
    using toDouble_eqI[of "- 1" "2353130805301084 / 2476979795053773" 8556839292003941] by simp
  have vp: "toDouble (213920982300098525 / 2251799813685248) = 6685030696878079 / 70368744177664"
    using toDouble_eqI[of 6 "213920982300098525 / 2251799813685248" 6685030696878079] by simp
  have c95: "toDouble (19 / 20) = 4278419646001971 / 4503599627370496"
    using toDouble_eqI[of "- 1" "19 / 20" 8556839292003942] by simp
  have q95: "toDouble (4278419646001971 / 4503599627370496) = 4278419646001971 / 4503599627370496"
    using toDouble_eqI[of "- 1" "4278419646001971 / 4503599627370496" 8556839292003942] by simp
  have p95: "toDouble (106960491150049275 / 1125899906842624) = 95"
    using toDouble_eqI[of 6 "106960491150049275 / 1125899906842624" 6685030696878080] by simp
  let ?z = "[exampleDebit\<lparr>ID := 0\<rparr>, exampleRepayment 96]"
  have z1: "exampleDebit\<lparr>ID := 0\<rparr> \<in> set (getMovementsPendingDirectSettlement ?z)"
    by (simp add: getMovementsPendingDirectSettlement_def exampleDebit_def)
  have z2: "SETTLED_MOVEMENT_ID (exampleRepayment 96) = None"
    by (simp add: exampleRepayment_def exampleRow_def)
  have z3: "processDebitRepaymentSettlement (exampleMatcher 0) 2 (exampleRepayment 96) ?z = ?z"
    by (simp add: processDebitRepaymentSettlement_def Let_def exampleMatcher_def)
  let ?s = "[exampleRow 1 100, exampleDebit, exampleRepayment 96]"
  have rep: "findIndex (\<lambda>movement. ID movement = 2) ?s = Some 2"
    by (simp add: exampleDebit_def exampleRepayment_def exampleRow_def)
  have pend: "find (\<lambda>d. ID d = 1) (getMovementsPendingDirectSettlement ?s) = Some exampleDebit"
    by (simp add: getMovementsPendingDirectSettlement_def exampleDebit_def
          exampleRepayment_def exampleRow_def MOVEMENT_TYPES_DEBIT_def
          MOVEMENT_TYPES_EXPENSE_def MOVEMENT_TYPES_DEBIT_REPAYMENT_def)
  then have d1: "exampleDebit \<in> set (getMovementsPendingDirectSettlement ?s)"
    by (rule find_Some_mem)
  have j: "findIndex (\<lambda>movement. ID movement = 1) ?s = Some 0"
    by (simp add: exampleRow_def)
  have d2: "ID exampleDebit = 1" and d2': "ID (exampleRow 1 100) = 1"
    and d3: "AMOUNT exampleDebit = 100"
    and d4: "AMOUNT (exampleRepayment 96) = 96"
    by (simp_all add: exampleDebit_def exampleRepayment_def exampleRow_def)
  have c: "js_ge (js_times (js_div (AMOUNT (exampleRepayment 96)) (AMOUNT exampleDebit)) 100) 95"
    unfolding d3 d4
    by (simp add: js_ge_def js_times_def js_div_def js_number_def finiteDouble_def x96 x96p)
  have cf: "processDebitRepaymentSettlement (exampleMatcher 1) 2 (exampleRepayment 96) ?s
              = setValues (0 + 2) (\<lambda>r. r\<lparr>STATUS := STATUS_SETTLED\<rparr>)
                  (setValues (2 + 2) (\<lambda>r. r\<lparr>SETTLED_MOVEMENT_ID := Some 1\<rparr>) ?s)"
    using settlement_closed_form
      [where matchDebitRepayment = "exampleMatcher 1" and rep = "exampleRepayment 96",
       OF rep _ _ pend j] c
    by (simp add: exampleMatcher_def)
  have st: "STATUS exampleDebit = STATUS_PENDING_DIRECT_SETTLEMENT"
    by (simp add: exampleDebit_def)
  have d5: "SETTLED_MOVEMENT_ID
     (processDebitRepaymentSettlement (exampleMatcher 1) 2 (exampleRepayment 96) ?s ! 2) = Some 1"
    unfolding cf by (simp add: setValues_def)
  have d6: "STATUS
     (processDebitRepaymentSettlement (exampleMatcher 1) 2 (exampleRepayment 96) ?s ! 1)
     = STATUS_PENDING_DIRECT_SETTLEMENT"
    unfolding cf using st by (simp add: setValues_def)
  have d7: "STATUS
     (processDebitRepaymentSettlement (exampleMatcher 1) 2 (exampleRepayment 96) ?s ! 0)
     = STATUS_SETTLED"
    unfolding cf by (simp add: setValues_def)
  have e3: "(209 / 100) / (220 / 100) = (95 / 100 :: rat)" by simp
  have pct: "js_times (js_div (toDouble (209 / 100)) (toDouble (220 / 100))) 100
               = Finite (6685030696878079 / 70368744177664)"
    by (simp add: js_times_def js_div_def js_number_def finiteDouble_def vd vr vq vp)
  have e4: "6685030696878079 / 70368744177664 < (95 :: rat)" by simp
  have c': "js_ge (js_times (js_div (toDouble (209 / 100)) (toDouble (220 / 100))) 100) 95
              \<longleftrightarrow> False"
    unfolding pct by (simp add: js_ge_def)
  note low = settlement_of_decimals[OF c', unfolded if_False]
  have f3: "toDouble (95 / 100) / 1 < 95 / 100" by (simp add: c95)
  have pct': "js_times (js_div (toDouble (95 / 100)) 1) 100 = Finite 95"
    by (simp add: js_times_def js_div_def js_number_def finiteDouble_def c95 q95 p95)
  have c'': "js_ge (js_times (js_div (toDouble (95 / 100)) 1) 100) 95 \<longleftrightarrow> True"
    unfolding pct' by (simp add: js_ge_def)
  note high = settlement_of_decimals[OF c'', unfolded if_True]
  from low have l1: "distinct (map ID [exampleDecimalDebit (toDouble (220 / 100)),
                     exampleDecimalRepayment (toDouble (209 / 100))])"
    and l2: "exampleDecimalDebit (toDouble (220 / 100))
     \<in> set (getMovementsPendingDirectSettlement
              [exampleDecimalDebit (toDouble (220 / 100)),
               exampleDecimalRepayment (toDouble (209 / 100))])"
    and l3: "ID (exampleDecimalDebit (toDouble (220 / 100))) = 1"
    and l4: "AMOUNT (exampleDecimalDebit (toDouble (220 / 100))) = toDouble (220 / 100)"
    and l5: "AMOUNT (exampleDecimalRepayment (toDouble (209 / 100))) = toDouble (209 / 100)"
    and l6: "SETTLED_MOVEMENT_ID
     (processDebitRepaymentSettlement (exampleMatcher 1) 2
        (exampleDecimalRepayment (toDouble (209 / 100)))
        [exampleDecimalDebit (toDouble (220 / 100)),
         exampleDecimalRepayment (toDouble (209 / 100))] ! 1) = Some 1"
    and l7: "STATUS
     (processDebitRepaymentSettlement (exampleMatcher 1) 2
        (exampleDecimalRepayment (toDouble (209 / 100)))
        [exampleDecimalDebit (toDouble (220 / 100)),
         exampleDecimalRepayment (toDouble (209 / 100))] ! 0)
     = STATUS_PENDING_DIRECT_SETTLEMENT"
    by blast+
  from high have h1: "distinct (map ID [exampleDecimalDebit 1,
                     exampleDecimalRepayment (toDouble (95 / 100))])"
    and h2: "exampleDecimalDebit 1
     \<in> set (getMovementsPendingDirectSettlement
              [exampleDecimalDebit 1, exampleDecimalRepayment (toDouble (95 / 100))])"
    and h3: "ID (exampleDecimalDebit 1) = 1"
    and h4: "AMOUNT (exampleDecimalDebit 1) = 1"
    and h5: "AMOUNT (exampleDecimalRepayment (toDouble (95 / 100))) = toDouble (95 / 100)"
    and h7: "STATUS
     (processDebitRepaymentSettlement (exampleMatcher 1) 2
        (exampleDecimalRepayment (toDouble (95 / 100)))
        [exampleDecimalDebit 1, exampleDecimalRepayment (toDouble (95 / 100))] ! 0)
     = STATUS_SETTLED"
    by blast+
  show ?thesis
    by (intro conjI z1 z2 z3 d1 d2 d2' d3 d4 d5 d6 d7 l1 l2 l3 l4 l5 e3 pct e4 l6 l7
          h1 h2 h3 h4 h5 f3 pct' h7)
qed

text \<open>
  Claim C3, as it holds. In a sheet with distinct ids, let the repayment movement be a
  row of the sheet and let the matcher return an id, not 0, of one of the pending debits.
  Then the run records that id as the \<^verbatim>\<open>settled_movement_id\<close> of the repayment row,
  whatever the amounts are. The status of the matched debit becomes settled if and only
  if the percentage \<^verbatim>\<open>(repaymentAmount / debitAmount) * 100\<close> that the run computes in doubles
  is at least 95, which is to say that \<^verbatim>\<open>repaymentAmount / debitAmount >= 0.95\<close> holds as
  JavaScript evaluates it: the rounded quotient is at least the double nearest to 0.95.
  Otherwise, in the band from 0.50 to 0.95 as below 0.50, it stays pending.
\<close>

theorem settlement_records_reference_and_applies_threshold:
  assumes ids: "distinct (map ID s)"
    and rep: "findIndex (\<lambda>movement. ID movement = repId) s = Some i"
    and matched: "matchDebitRepayment
             \<lparr>amount = AMOUNT rep, currency = CURRENCY rep,
              userDescription = USER_DESCRIPTION rep, comment = COMMENT rep,
              timestamp = TIMESTAMP rep\<rparr>
             (getMovementsPendingDirectSettlement s) = Some debitId"
    and nz: "debitId \<noteq> 0"
    and pend: "find (\<lambda>debit. ID debit = debitId) (getMovementsPendingDirectSettlement s)
             = Some debit"
  shows
    "(let s' = processDebitRepaymentSettlement matchDebitRepayment repId rep s;
          repaymentPercentage = js_times (js_div (AMOUNT rep) (AMOUNT debit)) 100
      in length s' = length s \<and>
         SETTLED_MOVEMENT_ID (s' ! i) = Some debitId \<and>
         (\<exists>j. findIndex (\<lambda>movement. ID movement = debitId) s = Some j \<and> s ! j = debit \<and>
              STATUS (s ! j) = STATUS_PENDING_DIRECT_SETTLEMENT \<and>
              (STATUS (s' ! j) = STATUS_SETTLED \<longleftrightarrow> js_ge repaymentPercentage 95) \<and>
              (\<not> js_ge repaymentPercentage 95 \<longrightarrow>
                 STATUS (s' ! j) = STATUS_PENDING_DIRECT_SETTLEMENT)) \<and>
         (js_ge repaymentPercentage 95
            \<longleftrightarrow> js_ge (js_div (AMOUNT rep) (AMOUNT debit)) (toDouble (95 / 100))) \<and>
         (AMOUNT debit \<noteq> 0 \<longrightarrow>
            (js_ge repaymentPercentage 95
               \<longleftrightarrow> toDouble (AMOUNT rep / AMOUNT debit) \<ge> toDouble (95 / 100))))"
proof -
  from pend have "debit \<in> set (getMovementsPendingDirectSettlement s)" "ID debit = debitId"
    by (auto simp: find_Some_iff)
  then have mem: "debit \<in> set s" and st: "STATUS debit = STATUS_PENDING_DIRECT_SETTLEMENT"
    and idd: "ID debit = debitId"
    by (simp_all add: getMovementsPendingDirectSettlement_def)
  from findIndex_of_member[OF ids mem] idd
  obtain j where j: "findIndex (\<lambda>movement. ID movement = debitId) s = Some j" "s ! j = debit"
    by auto
  from rep have i: "i < length s" by (simp add: findIndex_Some)
  from j(1) have jl: "j < length s" by (simp add: findIndex_Some)
  let ?s1 = "setValues (i + 2) (\<lambda>r. r\<lparr>SETTLED_MOVEMENT_ID := Some debitId\<rparr>) s"
  let ?s2 = "setValues (j + 2) (\<lambda>r. r\<lparr>STATUS := STATUS_SETTLED\<rparr>) ?s1"
  let ?c = "js_ge (js_times (js_div (AMOUNT rep) (AMOUNT debit)) 100) 95"
  have cf: "processDebitRepaymentSettlement matchDebitRepayment repId rep s
              = (if ?c then ?s2 else ?s1)"
    by (rule settlement_closed_form
          [where matchDebitRepayment = matchDebitRepayment and rep = rep,
           OF rep matched nz pend j(1)])
  have s1i: "SETTLED_MOVEMENT_ID (?s1 ! i) = Some debitId"
    using i by (simp add: nth_setValues_same)
  have s2i: "SETTLED_MOVEMENT_ID (?s2 ! i) = Some debitId"
    using s1i by (simp add: nth_setValues_field[of SETTLED_MOVEMENT_ID])
  have s1j: "STATUS (?s1 ! j) = STATUS_PENDING_DIRECT_SETTLEMENT"
    using j(2) st by (simp add: nth_setValues_field[of STATUS])
  have s2j: "STATUS (?s2 ! j) = STATUS_SETTLED"
    using jl by (simp add: nth_setValues_same)
  have ne: "STATUS_SETTLED \<noteq> STATUS_PENDING_DIRECT_SETTLEMENT"
    by (simp add: STATUS_SETTLED_def STATUS_PENDING_DIRECT_SETTLEMENT_def)
  have main: "\<exists>j. findIndex (\<lambda>movement. ID movement = debitId) s = Some j \<and> s ! j = debit \<and>
              STATUS (s ! j) = STATUS_PENDING_DIRECT_SETTLEMENT \<and>
              (STATUS ((if ?c then ?s2 else ?s1) ! j) = STATUS_SETTLED \<longleftrightarrow> ?c) \<and>
              (\<not> ?c \<longrightarrow> STATUS ((if ?c then ?s2 else ?s1) ! j) = STATUS_PENDING_DIRECT_SETTLEMENT)"
    using j st s1j s2j ne by (intro exI[of _ j]) auto
  have len: "length (if ?c then ?s2 else ?s1) = length s" by simp
  have sid: "SETTLED_MOVEMENT_ID ((if ?c then ?s2 else ?s1) ! i) = Some debitId"
    using s1i s2i by simp
  have quotient: "?c \<longleftrightarrow> js_ge (js_div (AMOUNT rep) (AMOUNT debit)) (toDouble (95 / 100))"
    by (rule js_percentage_ge)
  have ratio: "AMOUNT debit \<noteq> 0 \<longrightarrow>
      (?c \<longleftrightarrow> toDouble (AMOUNT rep / AMOUNT debit) \<ge> toDouble (95 / 100))"
  proof
    assume "AMOUNT debit \<noteq> 0"
    from js_ratio_ge[OF this double_95_percent_finite, of "AMOUNT rep"] quotient
    show "?c \<longleftrightarrow> toDouble (AMOUNT rep / AMOUNT debit) \<ge> toDouble (95 / 100)"
      by blast
  qed
  show ?thesis
    unfolding Let_def cf using len sid main quotient ratio by blast
qed

theorem settlement_records_reference_and_applies_threshold_witness:
  "distinct (map ID [exampleDebit, exampleRepayment 96]) \<and>
   findIndex (\<lambda>movement. ID movement = 2) [exampleDebit, exampleRepayment 96] = Some 1 \<and>
   find (\<lambda>debit. ID debit = 1)
     (getMovementsPendingDirectSettlement [exampleDebit, exampleRepayment 96])
     = Some exampleDebit \<and>
   AMOUNT exampleDebit \<noteq> 0 \<and>
   SETTLED_MOVEMENT_ID
     (processDebitRepaymentSettlement (\<lambda>d p. Some 1) 2 (exampleRepayment 96)
        [exampleDebit, exampleRepayment 96] ! 1) = Some 1 \<and>
   STATUS
     (processDebitRepaymentSettlement (\<lambda>d p. Some 1) 2 (exampleRepayment 96)
        [exampleDebit, exampleRepayment 96] ! 0) = STATUS_SETTLED"
proof -
  let ?s = "[exampleDebit, exampleRepayment 96]"
  have x96: "toDouble (24 / 25) = 1080863910568919 / 1125899906842624"
    using toDouble_eqI[of "- 1" "24 / 25" 8646911284551352] by simp
  have x96p: "toDouble (27021597764222975 / 281474976710656) = 96"
    using toDouble_eqI[of 6 "27021597764222975 / 281474976710656" 6755399441055744] by simp
  have h1: "distinct (map ID ?s)"
    by (simp add: exampleDebit_def exampleRepayment_def exampleRow_def)
  have h2: "findIndex (\<lambda>movement. ID movement = 2) ?s = Some 1"
    by (simp add: exampleDebit_def exampleRepayment_def exampleRow_def)
  have h3: "(\<lambda>d p. Some (1::int))
             \<lparr>amount = AMOUNT (exampleRepayment 96), currency = CURRENCY (exampleRepayment 96),
              userDescription = USER_DESCRIPTION (exampleRepayment 96),
              comment = COMMENT (exampleRepayment 96),
              timestamp = TIMESTAMP (exampleRepayment 96)\<rparr>
             (getMovementsPendingDirectSettlement ?s) = Some 1"
    by simp
  have h4: "(1::int) \<noteq> 0" by simp
  have h5: "find (\<lambda>debit. ID debit = 1) (getMovementsPendingDirectSettlement ?s)
              = Some exampleDebit"
    by (simp add: getMovementsPendingDirectSettlement_def exampleDebit_def
          exampleRepayment_def exampleRow_def MOVEMENT_TYPES_DEBIT_def
          MOVEMENT_TYPES_DEBIT_REPAYMENT_def)
  have h6: "AMOUNT exampleDebit \<noteq> 0" by (simp add: exampleDebit_def exampleRow_def)
  have j: "findIndex (\<lambda>movement. ID movement = 1) ?s = Some 0"
    by (simp add: exampleDebit_def exampleRow_def)
  have c: "js_ge (js_times (js_div (AMOUNT (exampleRepayment 96)) (AMOUNT exampleDebit)) 100) 95"
    by (simp add: js_ge_def js_times_def js_div_def js_number_def finiteDouble_def
          exampleDebit_def exampleRepayment_def exampleRow_def x96 x96p)
  note T = settlement_records_reference_and_applies_threshold
    [where matchDebitRepayment = "\<lambda>d p. Some 1" and rep = "exampleRepayment 96",
     OF h1 h2 h3 h4 h5, unfolded Let_def]
  from T j c have
    "SETTLED_MOVEMENT_ID
       (processDebitRepaymentSettlement (\<lambda>d p. Some 1) 2 (exampleRepayment 96) ?s ! 1) = Some 1"
    "STATUS
       (processDebitRepaymentSettlement (\<lambda>d p. Some 1) 2 (exampleRepayment 96) ?s ! 0)
       = STATUS_SETTLED"
    by auto
  with h1 h2 h5 h6 show ?thesis by blast
qed

section \<open>Repair pass\<close>

lemma fixMovementCurrencyConversion_outcome:
  "fixMovementCurrencyConversion fixc i s = (Inr False, s) \<or>
   fixMovementCurrencyConversion fixc i s = (Inl (ReferenceError ''sheetRowIndex is not defined''), s)"
  by (simp add: fixMovementCurrencyConversion_def Let_def split: option.splits)

lemma fixEach_never_counts_a_success:
  "fixEach fixc ms counts s = (Inr c, s') \<Longrightarrow>
   successCount c = successCount counts \<and>
   failureCount c = failureCount counts + length ms \<and> s' = s"
proof (induction ms arbitrary: counts)
  case Nil
  then show ?case by simp
next
  case (Cons m ms)
  from fixMovementCurrencyConversion_outcome[of fixc "ID m" s] show ?case
  proof
    assume a: "fixMovementCurrencyConversion fixc (ID m) s = (Inr False, s)"
    with Cons.prems have
      "fixEach fixc ms (counts\<lparr>failureCount := failureCount counts + 1\<rparr>) s = (Inr c, s')"
      by simp
    from Cons.IH[OF this] show ?thesis by simp
  next
    assume "fixMovementCurrencyConversion fixc (ID m) s
              = (Inl (ReferenceError ''sheetRowIndex is not defined''), s)"
    with Cons.prems show ?thesis by simp
  qed
qed

text \<open>
  Claim C4, at a failing input. One movement has a failed CLP value, a valid amount and
  currency, and the conversion service returns values for it. The repair reaches the write
  of the values, which reads the undeclared \<^verbatim>\<open>sheetRowIndex\<close>: the pass ends with a
  \<^verbatim>\<open>ReferenceError\<close> instead of returning the counts 1 and 0, and the row keeps its
  failed value.
\<close>

theorem repair_pass_throws_when_a_repair_succeeds:
  "getMovementsWithFailedCurrencyConversion exampleIsFailed [exampleFailedRow]
     = [exampleFailedRow] \<and>
   fixAllFailedCurrencyConversions exampleIsFailed exampleFix [exampleFailedRow]
     = (Inl (ReferenceError ''sheetRowIndex is not defined''), [exampleFailedRow])"
  by (simp add: fixAllFailedCurrencyConversions_def getMovementsWithFailedCurrencyConversion_def
        fixMovementCurrencyConversion_def exampleIsFailed_def exampleFix_def
        exampleFailedRow_def exampleRow_def truthy_def Let_def)

section \<open>Batch order\<close>

lemma insertSorted_is_insort_key:
  assumes "timeOf Date_parse x \<noteq> None" and "\<forall>y \<in> set ys. timeOf Date_parse y \<noteq> None"
  shows "insertSorted (compareTs Date_parse) x ys = insort_key (timeKey Date_parse) x ys"
  using assms
proof (induction ys)
  case Nil
  then show ?case by simp
next
  case (Cons y ys)
  from Cons.prems obtain tx ty where
    t: "timeOf Date_parse x = Some tx" "timeOf Date_parse y = Some ty" by auto
  then have c: "sortCompare (compareTs Date_parse) x y \<le> 0
                  \<longleftrightarrow> timeKey Date_parse x \<le> timeKey Date_parse y"
    by (simp add: sortCompare_def compareTs_def timeKey_def)
  from Cons show ?case by (simp add: c)
qed

lemma set_insertSorted: "set (insertSorted c x ys) = insert x (set ys)"
  by (induction ys) auto

lemma set_js_sort: "set (js_sort c xs) = set xs"
  by (induction xs) (simp_all add: js_sort_def set_insertSorted)

lemma js_sort_is_sort_key:
  assumes "\<forall>a \<in> set xs. timeOf Date_parse a \<noteq> None"
  shows "js_sort (compareTs Date_parse) xs = sort_key (timeKey Date_parse) xs"
  using assms
proof (induction xs)
  case Nil
  then show ?case by (simp add: js_sort_def)
next
  case (Cons x xs)
  then have ih: "js_sort (compareTs Date_parse) xs = sort_key (timeKey Date_parse) xs" by simp
  have "\<forall>y \<in> set (js_sort (compareTs Date_parse) xs). timeOf Date_parse y \<noteq> None"
    using Cons.prems by (simp add: set_js_sort)
  with Cons.prems have
    "insertSorted (compareTs Date_parse) x (js_sort (compareTs Date_parse) xs)
       = insort_key (timeKey Date_parse) x (js_sort (compareTs Date_parse) xs)"
    by (intro insertSorted_is_insort_key) simp_all
  with ih show ?case by (simp add: js_sort_def sort_key_def)
qed

lemma addEach_prefix:
  "\<exists>n \<le> length rs. snd (addEach rs s) = s @ take n rs \<and>
      (fst (addEach rs s) = Inr () \<longrightarrow> n = length rs)"
proof (induction rs arbitrary: s)
  case Nil
  then show ?case by simp
next
  case (Cons r rs)
  show ?case
  proof (cases "idExists (ID r) s")
    case True
    then have "addEach (r # rs) s = (Inl (DuplicateId (ID r)), s)"
      by (simp add: addMovement_duplicate)
    then show ?thesis by (intro exI[of _ 0]) simp
  next
    case False
    then have e: "addEach (r # rs) s = addEach rs (s @ [r])"
      by (simp add: addMovement_fresh)
    from Cons.IH[of "s @ [r]"] obtain n where
      n: "n \<le> length rs" "snd (addEach rs (s @ [r])) = (s @ [r]) @ take n rs"
         "fst (addEach rs (s @ [r])) = Inr () \<longrightarrow> n = length rs"
      by blast
    show ?thesis
      using n e by (intro exI[of _ "Suc n"]) simp
  qed
qed

text \<open>
  Claim C6, as stated, at a batch of a movement with a timestamp that parses followed by
  one with a timestamp that does not: the comparator gives \<^verbatim>\<open>NaN\<close> for the pair, the
  sort leaves the two in their input order, and the movement with the unparsable timestamp
  is inserted after the other, not before.
\<close>

theorem batch_keeps_unparsable_timestamp_in_place:
  "timeOf exampleParse \<lparr>ts = ''T1'', row = exampleRow 1 10\<rparr> = Some 1 \<and>
   timeOf exampleParse \<lparr>ts = ''yesterday'', row = exampleRow 2 20\<rparr> = None \<and>
   addMovementsBatch exampleParse
     [\<lparr>ts = ''T1'', row = exampleRow 1 10\<rparr>, \<lparr>ts = ''yesterday'', row = exampleRow 2 20\<rparr>] []
     = (Inr (), [exampleRow 1 10, exampleRow 2 20])"
  by (simp add: addMovementsBatch_def js_sort_def sortCompare_def compareTs_def timeOf_def
        exampleParse_def addMovement_def idExists_def getLastRow_def exampleRow_def)

text \<open>
  Claim C6, amended. When every timestamp of the batch is missing or parses, the batch is
  sorted by the stable sort on the epoch time, a missing timestamp counting as time 0 (so
  before every later time): the sorted batch is a permutation of the input with ascending
  times, whatever the input order. The rows are inserted in that order: the sheet grows
  by a prefix of the sorted rows, and by all of them when no insert throws. A timestamp
  that does not parse compares as equal to every other, and the claim says nothing of a
  batch that has one.
\<close>

theorem batch_is_inserted_in_timestamp_order:
  assumes "\<forall>a \<in> set movements. timeOf Date_parse a \<noteq> None"
  shows
    "(let sortedMovements = js_sort (compareTs Date_parse) movements;
          result = addMovementsBatch Date_parse movements s
      in sortedMovements = sort_key (timeKey Date_parse) movements \<and>
         sorted (map (timeKey Date_parse) sortedMovements) \<and>
         mset sortedMovements = mset movements \<and>
         (\<exists>n \<le> length movements.
            snd result = s @ take n (map row sortedMovements) \<and>
            (fst result = Inr () \<longrightarrow> n = length movements)))"
proof -
  have eq: "js_sort (compareTs Date_parse) movements = sort_key (timeKey Date_parse) movements"
    using assms by (rule js_sort_is_sort_key)
  have pre: "\<exists>n \<le> length movements.
      snd (addEach (map row (sort_key (timeKey Date_parse) movements)) s)
        = s @ take n (map row (sort_key (timeKey Date_parse) movements)) \<and>
      (fst (addEach (map row (sort_key (timeKey Date_parse) movements)) s) = Inr ()
         \<longrightarrow> n = length movements)"
    using addEach_prefix[of "map row (sort_key (timeKey Date_parse) movements)" s] by simp
  show ?thesis
    unfolding Let_def addMovementsBatch_def eq using pre by simp
qed

theorem batch_is_inserted_in_timestamp_order_witness:
  "timeOf exampleParse \<lparr>ts = ''T3'', row = exampleRow 1 30\<rparr> = Some 3 \<and>
   timeOf exampleParse \<lparr>ts = ''T1'', row = exampleRow 2 10\<rparr> = Some 1 \<and>
   timeOf exampleParse \<lparr>ts = ''T2'', row = exampleRow 3 20\<rparr> = Some 2 \<and>
   addMovementsBatch exampleParse
     [\<lparr>ts = ''T3'', row = exampleRow 1 30\<rparr>, \<lparr>ts = ''T1'', row = exampleRow 2 10\<rparr>,
      \<lparr>ts = ''T2'', row = exampleRow 3 20\<rparr>] []
     = (Inr (), [exampleRow 2 10, exampleRow 3 20, exampleRow 1 30])"
proof -
  let ?b = "[\<lparr>ts = ''T3'', row = exampleRow 1 30\<rparr>, \<lparr>ts = ''T1'', row = exampleRow 2 10\<rparr>,
             \<lparr>ts = ''T2'', row = exampleRow 3 20\<rparr>]"
  have h: "\<forall>a \<in> set ?b. timeOf exampleParse a \<noteq> None"
    by (simp add: timeOf_def exampleParse_def)
  have k: "sort_key (timeKey exampleParse) ?b
             = [\<lparr>ts = ''T1'', row = exampleRow 2 10\<rparr>, \<lparr>ts = ''T2'', row = exampleRow 3 20\<rparr>,
                \<lparr>ts = ''T3'', row = exampleRow 1 30\<rparr>]"
    by (simp add: sort_key_def timeKey_def timeOf_def exampleParse_def)
  have ok: "fst (addMovementsBatch exampleParse ?b []) = Inr ()"
    by (simp add: addMovementsBatch_def js_sort_def sortCompare_def compareTs_def timeOf_def
          exampleParse_def addMovement_def idExists_def getLastRow_def exampleRow_def)
  from batch_is_inserted_in_timestamp_order [OF h, of "[]", unfolded Let_def] ok k
  have "snd (addMovementsBatch exampleParse ?b [])
          = [exampleRow 2 10, exampleRow 3 20, exampleRow 1 30]"
    by auto
  with ok have "addMovementsBatch exampleParse ?b []
          = (Inr (), [exampleRow 2 10, exampleRow 3 20, exampleRow 1 30])"
    by (simp add: prod_eq_iff)
  then show ?thesis by (simp add: timeOf_def exampleParse_def)
qed

section \<open>Classification pass\<close>

lemma settleIfRepayment_calls:
  "settlementCalls (settleIfRepayment mt i m st) =
     (if TYPE' m = MOVEMENT_TYPES_DEBIT_REPAYMENT then settlementCalls st @ [m]
      else settlementCalls st)"
  by (simp add: settleIfRepayment_def)

lemma analyzeMovement_calls:
  "settlementCalls (analyzeMovement scv an mt m st) = settlementCalls st \<or>
   (settlementCalls (analyzeMovement scv an mt m st) = settlementCalls st @ [m] \<and>
    TYPE' m = MOVEMENT_TYPES_DEBIT_REPAYMENT \<and> analysisOf an m \<noteq> None)"
proof (cases "analysisOf an m")
  case None
  then show ?thesis by (simp add: analyzeMovement_def analysisOf_def Let_def)
next
  case (Some a)
  show ?thesis
  proof (cases "TYPE' m = MOVEMENT_TYPES_DEBIT_REPAYMENT")
    case True
    with Some show ?thesis
      by (auto simp: analyzeMovement_def analysisOf_def Let_def settleIfRepayment_calls
            split: prod.splits sum.splits)
  next
    case False
    with Some show ?thesis
      by (auto simp: analyzeMovement_def analysisOf_def Let_def settleIfRepayment_calls
            split: prod.splits sum.splits)
  qed
qed

lemma foldl_analyzeMovement_calls:
  "set (settlementCalls (foldl (\<lambda>st movement. analyzeMovement scv an mt movement st) st ms))
     \<subseteq> set (settlementCalls st) \<union>
        {m \<in> set ms. TYPE' m = MOVEMENT_TYPES_DEBIT_REPAYMENT \<and> analysisOf an m \<noteq> None}"
proof (induction ms arbitrary: st)
  case Nil
  then show ?case by simp
next
  case (Cons m ms)
  from analyzeMovement_calls[of scv an mt m st]
  have "set (settlementCalls (analyzeMovement scv an mt m st))
          \<subseteq> set (settlementCalls st) \<union>
             {x \<in> set [m]. TYPE' x = MOVEMENT_TYPES_DEBIT_REPAYMENT \<and> analysisOf an x \<noteq> None}"
    by auto
  with Cons.IH[of "analyzeMovement scv an mt m st"] show ?case by auto
qed

text \<open>
  Claim C10. Every movement that a run of the classification pass hands to the settlement
  matching is a row of the sheet the run started from, was selected for category analysis
  (its user description is not blank and its category is blank), is a debit repayment, and
  got an analysis from the classifier in this run (the classifier did not fail and its
  result was not discarded). So a debit repayment that has a category, has no user
  description, or got no analysis is not submitted in that run.
\<close>

theorem settlement_only_after_successful_analysis:
  "\<forall>m \<in> set (settlementCalls
               (processUncategorizedMovements scv analyzeCategory matchDebitRepayment s)).
     m \<in> set s \<and> hasUserDescription m \<and> hasNoCategory m \<and>
     TYPE' m = MOVEMENT_TYPES_DEBIT_REPAYMENT \<and>
     analysisOf analyzeCategory m \<noteq> None"
proof
  fix m
  assume "m \<in> set (settlementCalls
               (processUncategorizedMovements scv analyzeCategory matchDebitRepayment s))"
  with foldl_analyzeMovement_calls
         [of scv analyzeCategory matchDebitRepayment
             "\<lparr>sheetNow = s, analyzedCount = 0, splitCount = 0, errorCount = 0,
               settlementCalls = []\<rparr>"
             "getMovementsNeedingCategoryAnalysis s"]
  have "m \<in> set (getMovementsNeedingCategoryAnalysis s)"
    "TYPE' m = MOVEMENT_TYPES_DEBIT_REPAYMENT \<and> analysisOf analyzeCategory m \<noteq> None"
    by (auto simp: processUncategorizedMovements_def Let_def)
  then show "m \<in> set s \<and> hasUserDescription m \<and> hasNoCategory m \<and>
     TYPE' m = MOVEMENT_TYPES_DEBIT_REPAYMENT \<and>
     analysisOf analyzeCategory m \<noteq> None"
    by (simp add: getMovementsNeedingCategoryAnalysis_def)
qed

lemma example_needs_analysis:
  "hasUserDescription (exampleRepayment 96) \<and> hasNoCategory (exampleRepayment 96)"
  by (simp add: hasUserDescription_def hasNoCategory_def trim_def isWhiteSpace_def
        exampleRepayment_def exampleRow_def)

theorem settlement_only_after_successful_analysis_witness:
  "settlementCalls
     (processUncategorizedMovements splitProportionally exampleAnalyze (\<lambda>d p. None)
        [exampleRepayment 96]) = [exampleRepayment 96] \<and>
   hasUserDescription (exampleRepayment 96) \<and> hasNoCategory (exampleRepayment 96) \<and>
   TYPE' (exampleRepayment 96) = MOVEMENT_TYPES_DEBIT_REPAYMENT \<and>
   analysisOf exampleAnalyze (exampleRepayment 96) \<noteq> None"
proof -
  have sel: "getMovementsNeedingCategoryAnalysis [exampleRepayment 96] = [exampleRepayment 96]"
    using example_needs_analysis by (simp add: getMovementsNeedingCategoryAnalysis_def)
  have ty: "TYPE' (exampleRepayment 96) = MOVEMENT_TYPES_DEBIT_REPAYMENT"
    by (simp add: exampleRepayment_def)
  have calls: "settlementCalls
     (processUncategorizedMovements splitProportionally exampleAnalyze (\<lambda>d p. None)
        [exampleRepayment 96]) = [exampleRepayment 96]"
    by (simp add: processUncategorizedMovements_def sel Let_def analyzeMovement_def
          exampleAnalyze_def settleIfRepayment_calls ty)
  from settlement_only_after_successful_analysis
         [of splitProportionally exampleAnalyze "\<lambda>d p. None" "[exampleRepayment 96]"]
  have "hasUserDescription (exampleRepayment 96) \<and> hasNoCategory (exampleRepayment 96) \<and>
        TYPE' (exampleRepayment 96) = MOVEMENT_TYPES_DEBIT_REPAYMENT \<and>
        analysisOf exampleAnalyze (exampleRepayment 96) \<noteq> None"
    unfolding calls by simp
  with calls show ?thesis by blast
qed

section \<open>Ingestion\<close>

lemma count_insertSorted:
  "length (filter P (insertSorted c x ys)) = length (filter P (x # ys))"
  by (induction ys) auto

lemma count_js_sort: "length (filter P (js_sort c xs)) = length (filter P xs)"
  by (induction xs) (simp_all add: js_sort_def count_insertSorted)

lemma count_take: "length (filter P (take n xs)) \<le> length (filter P xs)"
proof -
  have "length (filter P xs) = length (filter P (take n xs @ drop n xs))" by simp
  also have "\<dots> = length (filter P (take n xs)) + length (filter P (drop n xs))"
    by (simp only: filter_append length_append)
  finally show ?thesis by simp
qed

lemma addMovementsBatch_adds:
  "\<exists>added. snd (addMovementsBatch Date_parse batch s) = s @ added \<and>
           (\<forall>P. length (filter P added) \<le> length (filter P (map row batch)))"
proof -
  let ?sorted = "js_sort (compareTs Date_parse) batch"
  from addEach_prefix[of "map row ?sorted" s] obtain n where
    n: "snd (addEach (map row ?sorted) s) = s @ take n (map row ?sorted)" by blast
  have "\<And>P. length (filter P (take n (map row ?sorted))) \<le> length (filter P (map row batch))"
  proof -
    fix P
    have "length (filter P (take n (map row ?sorted))) \<le> length (filter P (map row ?sorted))"
      by (rule count_take)
    also have "\<dots> = length (filter (P \<circ> row) ?sorted)" by (simp add: filter_map)
    also have "\<dots> = length (filter (P \<circ> row) batch)" by (rule count_js_sort)
    also have "\<dots> = length (filter P (map row batch))" by (simp add: filter_map)
    finally show "length (filter P (take n (map row ?sorted))) \<le> length (filter P (map row batch))" .
  qed
  with n show ?thesis by (auto simp: addMovementsBatch_def Let_def)
qed

lemma createMonzoMovementRow_key:
  assumes "recordsTransaction conv" and "createMonzoMovementRow conv gacv t n = Some r"
  shows "SOURCE r = SOURCES_MONZO \<and> SOURCE_ID r = id' t \<and> ID r = n"
  using assms
  by (auto simp: createMonzoMovementRow_def recordsTransaction_def
        split: sum.splits option.splits)

lemma count_monzoBatch:
  assumes "recordsTransaction conv"
  shows "length (filter (hasMonzoKey k)
           (map row (monzoBatch (createMonzoMovementRow conv gacv) txs n)))
         \<le> length (filter (\<lambda>t. id' t = k) txs)"
proof (induction txs arbitrary: n)
  case Nil
  then show ?case by simp
next
  case (Cons t txs)
  show ?case
  proof (cases "createMonzoMovementRow conv gacv t n")
    case None
    with Cons.IH[of n] show ?thesis by (simp add: le_SucI)
  next
    case (Some r)
    from createMonzoMovementRow_key[OF assms Some]
    have "hasMonzoKey k r \<longleftrightarrow> id' t = k" by (auto simp: hasMonzoKey_def)
    with Some Cons.IH[of "n + 1"] show ?thesis by simp
  qed
qed

lemma existing_monzo_key:
  assumes "k \<noteq> []" and "r \<in> set s" and "hasMonzoKey k r"
  shows "k \<in> getExistingSourceIds (Some SOURCES_MONZO) s"
proof -
  from assms(2) have "s \<noteq> []" by auto
  then have "getLastRow s > 1" by (cases s) (simp_all add: getLastRow_def)
  moreover have "SOURCES_MONZO \<noteq> []" by (simp add: SOURCES_MONZO_def)
  ultimately show ?thesis
    using assms by (auto simp: getExistingSourceIds_def hasMonzoKey_def image_iff)
qed

lemma processMonzoTransactions_adds:
  assumes "recordsTransaction conv"
  shows "\<exists>added. snd (processMonzoTransactions Date_parse conv gacv c txs s) = s @ added \<and>
           length (filter (hasMonzoKey k) added)
             \<le> length (filter (\<lambda>t. id' t = k)
                  (filter (\<lambda>t. \<not> (id' t \<in> getExistingSourceIds (Some SOURCES_MONZO) s)) txs))"
proof -
  let ?new = "filter (\<lambda>t. \<not> (id' t \<in> getExistingSourceIds (Some SOURCES_MONZO) s)) txs"
  let ?batch = "monzoBatch (createMonzoMovementRow conv gacv) ?new (getNextId s)"
  from addMovementsBatch_adds[of Date_parse ?batch s] obtain added where
    a: "snd (addMovementsBatch Date_parse ?batch s) = s @ added"
       "length (filter (hasMonzoKey k) added)
          \<le> length (filter (hasMonzoKey k) (map row ?batch))"
    by blast
  from a(2) count_monzoBatch[OF assms, of k gacv ?new "getNextId s"]
  have b: "length (filter (hasMonzoKey k) added) \<le> length (filter (\<lambda>t. id' t = k) ?new)"
    by simp
  show ?thesis
  proof (cases "c \<and> txs \<noteq> [] \<and> ?new \<noteq> [] \<and> ?batch \<noteq> []")
    case True
    then have "processMonzoTransactions Date_parse conv gacv c txs s
                 = addMovementsBatch Date_parse ?batch s"
      by (simp add: processMonzoTransactions_def Let_def)
    with a(1) b show ?thesis by auto
  next
    case False
    then have "snd (processMonzoTransactions Date_parse conv gacv c txs s) = s"
      by (auto simp: processMonzoTransactions_def Let_def)
    then show ?thesis by (intro exI[of _ "[]"]) simp
  qed
qed

lemma monzo_known_key_not_added:
  assumes conv: "recordsTransaction conv" and k: "k \<noteq> []"
    and r: "r \<in> set s" "hasMonzoKey k r"
  shows "filter (hasMonzoKey k) (snd (processMonzoTransactions Date_parse conv gacv c txs s))
           = filter (hasMonzoKey k) s"
proof -
  from existing_monzo_key[OF k r] have
    "filter (\<lambda>t. id' t = k)
       (filter (\<lambda>t. \<not> (id' t \<in> getExistingSourceIds (Some SOURCES_MONZO) s)) txs) = []"
    by (auto simp: filter_empty_conv)
  with processMonzoTransactions_adds[OF conv, of Date_parse gacv c txs s k]
  obtain added where
    "snd (processMonzoTransactions Date_parse conv gacv c txs s) = s @ added"
    "filter (hasMonzoKey k) added = []"
    by auto
  then show ?thesis by simp
qed

lemma count_distinct_key:
  "distinct (map f xs) \<Longrightarrow> length (filter (\<lambda>x. f x = k) xs) \<le> 1"
  by (induction xs) (auto simp: filter_empty_conv image_iff)

lemma monzo_new_key_added_once:
  assumes conv: "recordsTransaction conv" and d: "distinct (map id' txs)"
  shows "length (filter (hasMonzoKey k)
            (snd (processMonzoTransactions Date_parse conv gacv c txs s)))
         \<le> length (filter (hasMonzoKey k) s) + 1"
proof -
  let ?new = "filter (\<lambda>t. \<not> (id' t \<in> getExistingSourceIds (Some SOURCES_MONZO) s)) txs"
  from d have "distinct (map id' ?new)" by (simp add: distinct_map_filter)
  then have "length (filter (\<lambda>t. id' t = k) ?new) \<le> 1" by (rule count_distinct_key)
  with processMonzoTransactions_adds[OF conv, of Date_parse gacv c txs s k]
  show ?thesis by auto
qed

lemma createSplitwiseMovementRow_key:
  "createSplitwiseMovementRow Date_parse gacv m n = Inr r \<Longrightarrow>
   ACCOUNTING_SYSTEM_ID r = Some (splitwiseId m) \<and> ID r = n"
  by (auto simp: createSplitwiseMovementRow_def Let_def split: option.splits sum.splits)

lemma count_splitwiseBatch:
  "splitwiseBatch (createSplitwiseMovementRow Date_parse gacv) ms n = Inr items \<Longrightarrow>
   length (filter (hasAccountingKey k) (map row items))
     = length (filter (\<lambda>m. splitwiseId m = k) ms)"
proof (induction ms arbitrary: n items)
  case Nil
  then show ?case by simp
next
  case (Cons m ms)
  from Cons.prems obtain r rest where
    r: "createSplitwiseMovementRow Date_parse gacv m n = Inr r"
    and rest: "splitwiseBatch (createSplitwiseMovementRow Date_parse gacv) ms (n + 1) = Inr rest"
    and items: "items = \<lparr>ts = date m, row = r\<rparr> # rest"
    by (auto split: sum.splits)
  from createSplitwiseMovementRow_key[OF r]
  have "hasAccountingKey k r \<longleftrightarrow> splitwiseId m = k" by (auto simp: hasAccountingKey_def)
  with Cons.IH[OF rest] items show ?case by simp
qed

lemma existing_accounting_key:
  assumes "k \<noteq> 0" and "r \<in> set s" and "hasAccountingKey k r"
  shows "toString k \<in> getExistingAccountingSystemIds s"
proof -
  from assms(2) have "s \<noteq> []" by auto
  then have "getLastRow s > 1" by (cases s) (simp_all add: getLastRow_def)
  then show ?thesis
    using assms
    by (auto simp: getExistingAccountingSystemIds_def hasAccountingKey_def
          intro!: bexI[of _ r])
qed

lemma processSplitwiseMovements_adds:
  "\<exists>added. snd (processSplitwiseMovements Date_parse gacv c credits debits s) = s @ added \<and>
     length (filter (hasAccountingKey k) added)
       \<le> length (filter (\<lambda>m. splitwiseId m = k)
            (filter (\<lambda>m. \<not> (toString (splitwiseId m) \<in> getExistingAccountingSystemIds s))
               (credits @ debits)))"
proof -
  let ?new = "filter (\<lambda>m. \<not> (toString (splitwiseId m) \<in> getExistingAccountingSystemIds s))
                (credits @ debits)"
  let ?made = "splitwiseBatch (createSplitwiseMovementRow Date_parse gacv) ?new (getNextId s)"
  show ?thesis
  proof (cases "c \<and> credits @ debits \<noteq> [] \<and> ?new \<noteq> []")
    case False
    then have "snd (processSplitwiseMovements Date_parse gacv c credits debits s) = s"
      by (auto simp: processSplitwiseMovements_def Let_def)
    then show ?thesis by (intro exI[of _ "[]"]) simp
  next
    case True
    show ?thesis
    proof (cases ?made)
      case (Inl e)
      with True have "snd (processSplitwiseMovements Date_parse gacv c credits debits s) = s"
        by (auto simp: processSplitwiseMovements_def Let_def)
      then show ?thesis by (intro exI[of _ "[]"]) simp
    next
      case (Inr batch)
      show ?thesis
      proof (cases "batch = []")
        case True
        with Inr \<open>c \<and> credits @ debits \<noteq> [] \<and> ?new \<noteq> []\<close>
        have "snd (processSplitwiseMovements Date_parse gacv c credits debits s) = s"
          by (auto simp: processSplitwiseMovements_def Let_def)
        then show ?thesis by (intro exI[of _ "[]"]) simp
      next
        case False
        with Inr \<open>c \<and> credits @ debits \<noteq> [] \<and> ?new \<noteq> []\<close>
        have e: "processSplitwiseMovements Date_parse gacv c credits debits s
                   = addMovementsBatch Date_parse batch s"
          by (auto simp: processSplitwiseMovements_def Let_def)
        from addMovementsBatch_adds[of Date_parse batch s] obtain added where
          a: "snd (addMovementsBatch Date_parse batch s) = s @ added"
             "length (filter (hasAccountingKey k) added)
                \<le> length (filter (hasAccountingKey k) (map row batch))"
          by blast
        from a(2) count_splitwiseBatch[OF Inr, of k]
        have "length (filter (hasAccountingKey k) added)
                \<le> length (filter (\<lambda>m. splitwiseId m = k) ?new)" by simp
        with a(1) e show ?thesis by auto
      qed
    qed
  qed
qed

lemma splitwise_known_key_not_added:
  assumes k: "k \<noteq> 0" and r: "r \<in> set s" "hasAccountingKey k r"
  shows "filter (hasAccountingKey k)
           (snd (processSplitwiseMovements Date_parse gacv c credits debits s))
           = filter (hasAccountingKey k) s"
proof -
  from existing_accounting_key[OF k r] have
    "filter (\<lambda>m. splitwiseId m = k)
       (filter (\<lambda>m. \<not> (toString (splitwiseId m) \<in> getExistingAccountingSystemIds s))
          (credits @ debits)) = []"
    by (auto simp: filter_empty_conv)
  with processSplitwiseMovements_adds[of Date_parse gacv c credits debits s k]
  obtain added where
    "snd (processSplitwiseMovements Date_parse gacv c credits debits s) = s @ added"
    "filter (hasAccountingKey k) added = []"
    by auto
  then show ?thesis by simp
qed

lemma splitwise_new_key_added_once:
  assumes d: "distinct (map splitwiseId (credits @ debits))"
  shows "length (filter (hasAccountingKey k)
            (snd (processSplitwiseMovements Date_parse gacv c credits debits s)))
         \<le> length (filter (hasAccountingKey k) s) + 1"
proof -
  let ?new = "filter (\<lambda>m. \<not> (toString (splitwiseId m) \<in> getExistingAccountingSystemIds s))
                (credits @ debits)"
  from d have "distinct (map splitwiseId ?new)" by (rule distinct_map_filter)
  then have "length (filter (\<lambda>m. splitwiseId m = k) ?new) \<le> 1" by (rule count_distinct_key)
  with processSplitwiseMovements_adds[of Date_parse gacv c credits debits s k]
  show ?thesis by auto
qed

lemma addEach_fresh:
  "\<forall>r \<in> set rs. \<not> idExists (ID r) s \<Longrightarrow> distinct (map ID rs) \<Longrightarrow>
   addEach rs s = (Inr (), s @ rs)"
proof (induction rs arbitrary: s)
  case Nil
  then show ?case by simp
next
  case (Cons r rs)
  from Cons.prems have a: "addMovement r s = (Inr (), s @ [r])"
    by (intro addMovement_fresh) simp
  have "\<forall>x \<in> set rs. \<not> idExists (ID x) (s @ [r])"
    using Cons.prems by (auto simp: idExists_iff image_iff)
  moreover have "distinct (map ID rs)" using Cons.prems by simp
  ultimately have "addEach rs (s @ [r]) = (Inr (), (s @ [r]) @ rs)" by (rule Cons.IH)
  with a show ?case by simp
qed

lemma mset_insertSorted: "mset (insertSorted c x ys) = add_mset x (mset ys)"
  by (induction ys) simp_all

lemma mset_js_sort: "mset (js_sort c xs) = mset xs"
  by (induction xs) (simp_all add: js_sort_def mset_insertSorted)

lemma addMovementsBatch_fresh:
  assumes f: "\<forall>x \<in> set batch. \<not> idExists (ID (row x)) s"
    and d: "distinct (map (\<lambda>x. ID (row x)) batch)"
  shows "addMovementsBatch Date_parse batch s
           = (Inr (), s @ map row (js_sort (compareTs Date_parse) batch))"
proof -
  let ?sorted = "js_sort (compareTs Date_parse) batch"
  have "mset (map (\<lambda>x. ID (row x)) ?sorted) = mset (map (\<lambda>x. ID (row x)) batch)"
    by (simp add: mset_js_sort)
  with d have "distinct (map (\<lambda>x. ID (row x)) ?sorted)"
    by (metis mset_eq_imp_distinct_iff)
  then have d': "distinct (map ID (map row ?sorted))" by (simp add: comp_def)
  have f': "\<forall>r \<in> set (map row ?sorted). \<not> idExists (ID r) s"
    using f by (simp add: set_js_sort)
  from addEach_fresh[OF f' d'] show ?thesis by (simp add: addMovementsBatch_def)
qed

lemma distinct_consecutive_ids: "distinct (map (\<lambda>i. n + int i) [0..<m])"
  by (simp add: distinct_map inj_on_def)

lemma ids_monzoBatch:
  assumes "recordsTransaction conv"
  shows "map (\<lambda>x. ID (row x)) (monzoBatch (createMonzoMovementRow conv gacv) txs n)
           = map (\<lambda>i. n + int i)
               [0..<length (monzoBatch (createMonzoMovementRow conv gacv) txs n)]"
proof (induction txs arbitrary: n)
  case Nil
  then show ?case by simp
next
  case (Cons t txs)
  show ?case
  proof (cases "createMonzoMovementRow conv gacv t n")
    case None
    with Cons.IH[of n] show ?thesis by simp
  next
    case (Some r)
    from createMonzoMovementRow_key[OF assms Some] have "ID r = n" by simp
    with Some Cons.IH[of "n + 1"] show ?thesis
      by (simp add: map_upt_Suc del: upt_Suc)
  qed
qed

lemma ids_splitwiseBatch:
  "splitwiseBatch (createSplitwiseMovementRow Date_parse gacv) ms n = Inr items \<Longrightarrow>
   map (\<lambda>x. ID (row x)) items = map (\<lambda>i. n + int i) [0..<length items]"
proof (induction ms arbitrary: n items)
  case Nil
  then show ?case by simp
next
  case (Cons m ms)
  from Cons.prems obtain r rest where
    r: "createSplitwiseMovementRow Date_parse gacv m n = Inr r"
    and rest: "splitwiseBatch (createSplitwiseMovementRow Date_parse gacv) ms (n + 1) = Inr rest"
    and items: "items = \<lparr>ts = date m, row = r\<rparr> # rest"
    by (auto split: sum.splits)
  from createSplitwiseMovementRow_key[OF r] have "ID r = n" by simp
  with Cons.IH[OF rest] items show ?case
    by (simp add: map_upt_Suc del: upt_Suc)
qed

lemma consecutive_ids_fresh:
  assumes "map (\<lambda>x. ID (row x)) batch = map (\<lambda>i. getNextId s + int i) [0..<length batch]"
  shows "(\<forall>x \<in> set batch. \<not> idExists (ID (row x)) s) \<and> distinct (map (\<lambda>x. ID (row x)) batch)"
proof
  show "distinct (map (\<lambda>x. ID (row x)) batch)"
    unfolding assms by (rule distinct_consecutive_ids)
  show "\<forall>x \<in> set batch. \<not> idExists (ID (row x)) s"
  proof
    fix x assume "x \<in> set batch"
    then have "ID (row x) \<in> set (map (\<lambda>x. ID (row x)) batch)" by simp
    then have "ID (row x) \<in> set (map (\<lambda>i. getNextId s + int i) [0..<length batch])"
      by (simp only: assms)
    then have "getNextId s \<le> ID (row x)" by auto
    then show "\<not> idExists (ID (row x)) s"
      using getNextId_gt[of _ s] by (fastforce simp: idExists_iff)
  qed
qed

lemma monzoBatch_has_row:
  assumes conv: "recordsTransaction conv" and t: "t \<in> set txs"
    and made: "\<forall>n. createMonzoMovementRow conv gacv t n \<noteq> None"
  shows "\<exists>x \<in> set (monzoBatch (createMonzoMovementRow conv gacv) txs n).
           hasMonzoKey (id' t) (row x)"
  using t
proof (induction txs arbitrary: n)
  case Nil
  then show ?case by simp
next
  case (Cons u txs)
  show ?case
  proof (cases "u = t")
    case True
    from made obtain r where r: "createMonzoMovementRow conv gacv t n = Some r" by auto
    from createMonzoMovementRow_key[OF conv r] have "hasMonzoKey (id' t) r"
      by (simp add: hasMonzoKey_def)
    with True r show ?thesis by simp
  next
    case False
    with Cons.prems have "t \<in> set txs" by simp
    from Cons.IH[OF this] show ?thesis
      by (cases "createMonzoMovementRow conv gacv u n") auto
  qed
qed

lemma splitwiseBatch_has_row:
  "splitwiseBatch (createSplitwiseMovementRow Date_parse gacv) ms n = Inr items \<Longrightarrow>
   m \<in> set ms \<Longrightarrow> \<exists>x \<in> set items. hasAccountingKey (splitwiseId m) (row x)"
proof (induction ms arbitrary: n items)
  case Nil
  then show ?case by simp
next
  case (Cons u ms)
  from Cons.prems(1) obtain r rest where
    r: "createSplitwiseMovementRow Date_parse gacv u n = Inr r"
    and rest: "splitwiseBatch (createSplitwiseMovementRow Date_parse gacv) ms (n + 1) = Inr rest"
    and items: "items = \<lparr>ts = date u, row = r\<rparr> # rest"
    by (auto split: sum.splits)
  show ?case
  proof (cases "u = m")
    case True
    from createSplitwiseMovementRow_key[OF r] True items show ?thesis
      by (simp add: hasAccountingKey_def)
  next
    case False
    with Cons.prems(2) have "m \<in> set ms" by simp
    from Cons.IH[OF rest this] items show ?thesis by auto
  qed
qed

lemma known_monzo_key_has_row:
  "k \<in> getExistingSourceIds (Some SOURCES_MONZO) s \<Longrightarrow> \<exists>r \<in> set s. hasMonzoKey k r"
  by (auto simp: getExistingSourceIds_def hasMonzoKey_def SOURCES_MONZO_def split: if_splits)

lemma monzo_fetched_key_present:
  assumes conv: "recordsTransaction conv" and t: "t \<in> set txs"
    and made: "\<forall>n. createMonzoMovementRow conv gacv t n \<noteq> None"
  shows "\<exists>r \<in> set (snd (processMonzoTransactions Date_parse conv gacv True txs s)).
           hasMonzoKey (id' t) r"
proof (cases "id' t \<in> getExistingSourceIds (Some SOURCES_MONZO) s")
  case True
  from known_monzo_key_has_row[OF True] obtain r where r: "r \<in> set s" "hasMonzoKey (id' t) r"
    by blast
  from processMonzoTransactions_adds[OF conv, of Date_parse gacv True txs s "id' t"]
  obtain added where
    "snd (processMonzoTransactions Date_parse conv gacv True txs s) = s @ added" by blast
  with r show ?thesis by auto
next
  case False
  let ?new = "filter (\<lambda>t. \<not> (id' t \<in> getExistingSourceIds (Some SOURCES_MONZO) s)) txs"
  let ?batch = "monzoBatch (createMonzoMovementRow conv gacv) ?new (getNextId s)"
  from t False have tn: "t \<in> set ?new" by simp
  from monzoBatch_has_row[OF conv tn made, of "getNextId s"]
  obtain x where x: "x \<in> set ?batch" "hasMonzoKey (id' t) (row x)" by blast
  from consecutive_ids_fresh[OF ids_monzoBatch[OF conv, of gacv ?new "getNextId s"]]
  have "addMovementsBatch Date_parse ?batch s
          = (Inr (), s @ map row (js_sort (compareTs Date_parse) ?batch))"
    by (intro addMovementsBatch_fresh) simp_all
  moreover from t tn x(1) have "txs \<noteq> []" "?new \<noteq> []" "?batch \<noteq> []" by auto
  ultimately have
    "snd (processMonzoTransactions Date_parse conv gacv True txs s)
       = s @ map row (js_sort (compareTs Date_parse) ?batch)"
    by (simp add: processMonzoTransactions_def Let_def)
  moreover from x(1) have "row x \<in> set (map row (js_sort (compareTs Date_parse) ?batch))"
    by (simp add: set_js_sort)
  ultimately show ?thesis using x(2) by auto
qed

lemma splitwise_fetched_key_present:
  assumes m: "m \<in> set (credits @ debits)"
    and new: "toString (splitwiseId m) \<notin> getExistingAccountingSystemIds s"
    and ok: "fst (processSplitwiseMovements Date_parse gacv True credits debits s) = Inr ()"
  shows "\<exists>r \<in> set (snd (processSplitwiseMovements Date_parse gacv True credits debits s)).
           hasAccountingKey (splitwiseId m) r"
proof -
  let ?new = "filter (\<lambda>m. \<not> (toString (splitwiseId m) \<in> getExistingAccountingSystemIds s))
                (credits @ debits)"
  let ?made = "splitwiseBatch (createSplitwiseMovementRow Date_parse gacv) ?new (getNextId s)"
  from m new have mn: "m \<in> set ?new" by simp
  have ne2: "?new \<noteq> []"
  proof
    assume "?new = []"
    with mn show False by (simp only: list.set empty_iff)
  qed
  from m have ne1: "credits @ debits \<noteq> []" by auto
  note ne = ne1 ne2
  show ?thesis
  proof (cases ?made)
    case (Inl e)
    with ne have "fst (processSplitwiseMovements Date_parse gacv True credits debits s) = Inl e"
      by (auto simp: processSplitwiseMovements_def Let_def)
    with ok show ?thesis by simp
  next
    case (Inr batch)
    from splitwiseBatch_has_row[OF Inr mn]
    obtain x where x: "x \<in> set batch" "hasAccountingKey (splitwiseId m) (row x)" by blast
    from consecutive_ids_fresh[OF ids_splitwiseBatch[OF Inr]]
    have "addMovementsBatch Date_parse batch s
            = (Inr (), s @ map row (js_sort (compareTs Date_parse) batch))"
      by (intro addMovementsBatch_fresh) simp_all
    moreover from x(1) have "batch \<noteq> []" by auto
    ultimately have
      "snd (processSplitwiseMovements Date_parse gacv True credits debits s)
         = s @ map row (js_sort (compareTs Date_parse) batch)"
      using ne Inr by (auto simp: processSplitwiseMovements_def Let_def)
    moreover from x(1) have "row x \<in> set (map row (js_sort (compareTs Date_parse) batch))"
      by (simp add: set_js_sort)
    ultimately show ?thesis using x(2) by auto
  qed
qed

lemma monzo_key_at_most_once:
  assumes conv: "recordsTransaction conv" and k: "k \<noteq> []"
    and before: "length (filter (hasMonzoKey k) s) \<le> 1"
    and d: "distinct (map id' txs)"
  shows "length (filter (hasMonzoKey k)
            (snd (processMonzoTransactions Date_parse conv gacv c txs s))) \<le> 1"
proof (cases "filter (hasMonzoKey k) s = []")
  case True
  with monzo_new_key_added_once[OF conv d, of k Date_parse gacv c s] show ?thesis by simp
next
  case False
  then obtain r where "r \<in> set s" "hasMonzoKey k r" by (auto simp: filter_empty_conv)
  from monzo_known_key_not_added[OF conv k this, of Date_parse gacv c txs] before
  show ?thesis by simp
qed

lemma splitwise_key_at_most_once:
  assumes k: "k \<noteq> 0"
    and before: "length (filter (hasAccountingKey k) s) \<le> 1"
    and d: "distinct (map splitwiseId (credits @ debits))"
  shows "length (filter (hasAccountingKey k)
            (snd (processSplitwiseMovements Date_parse gacv c credits debits s))) \<le> 1"
proof (cases "filter (hasAccountingKey k) s = []")
  case True
  with splitwise_new_key_added_once[OF d, of k Date_parse gacv c s] show ?thesis by simp
next
  case False
  then obtain r where "r \<in> set s" "hasAccountingKey k r" by (auto simp: filter_empty_conv)
  from splitwise_known_key_not_added[OF k this, of Date_parse gacv c credits debits] before
  show ?thesis by simp
qed

lemma exactly_one_of_at_most_one:
  "length (filter P xs) \<le> 1 \<Longrightarrow> \<exists>r \<in> set xs. P r \<Longrightarrow> length (filter P xs) = 1"
proof -
  assume a: "length (filter P xs) \<le> 1" and "\<exists>r \<in> set xs. P r"
  then have "filter P xs \<noteq> []" by (auto simp: filter_empty_conv)
  then obtain y ys where "filter P xs = y # ys" by (cases "filter P xs") auto
  with a show ?thesis by simp
qed

text \<open>
  Claim C9. Take a ledger with at most one movement of a key and a fetch in which every
  record has its own key; the key is truthy (a non-empty source id, an accounting-system
  id other than 0), and the converter of banking transactions records the id of the
  transaction. After the ingestion the ledger still has at most one movement of the key;
  it has one as soon as a record of the key was fetched and its row could be made (for the
  bill-splitting source: the key was new and the run returned). Once a movement of the
  key is in the ledger it is the only one, and a second ingestion, of the same or of any
  other fetch, inserts no movement of that key.
\<close>

theorem ingestion_is_idempotent:
  assumes conv: "recordsTransaction convert"
  shows
    "(k \<noteq> [] \<and> length (filter (hasMonzoKey k) s) \<le> 1 \<and> distinct (map id' transactions) \<longrightarrow>
        (let s1 = snd (processMonzoTransactions Date_parse convert getAllCurrencyValues
                         c transactions s);
             s2 = snd (processMonzoTransactions Date_parse convert getAllCurrencyValues
                         c2 transactions2 s1)
         in length (filter (hasMonzoKey k) s1) \<le> 1 \<and>
            (c \<and> (\<exists>t \<in> set transactions. id' t = k \<and>
                    (\<forall>n. createMonzoMovementRow convert getAllCurrencyValues t n \<noteq> None))
               \<longrightarrow> (\<exists>r \<in> set s1. hasMonzoKey k r)) \<and>
            ((\<exists>r \<in> set s1. hasMonzoKey k r) \<longrightarrow>
               length (filter (hasMonzoKey k) s1) = 1 \<and>
               filter (hasMonzoKey k) s2 = filter (hasMonzoKey k) s1)))
     \<and>
     (a \<noteq> 0 \<and> length (filter (hasAccountingKey a) z) \<le> 1 \<and>
      distinct (map splitwiseId (creditMovements @ debitMovements)) \<longrightarrow>
        (let z1 = snd (processSplitwiseMovements Date_parse getAllCurrencyValues
                         c creditMovements debitMovements z);
             z2 = snd (processSplitwiseMovements Date_parse getAllCurrencyValues
                         c2 creditMovements2 debitMovements2 z1)
         in length (filter (hasAccountingKey a) z1) \<le> 1 \<and>
            (c \<and> (\<exists>m \<in> set (creditMovements @ debitMovements). splitwiseId m = a) \<and>
             toString a \<notin> getExistingAccountingSystemIds z \<and>
             fst (processSplitwiseMovements Date_parse getAllCurrencyValues
                    c creditMovements debitMovements z) = Inr ()
               \<longrightarrow> (\<exists>r \<in> set z1. hasAccountingKey a r)) \<and>
            ((\<exists>r \<in> set z1. hasAccountingKey a r) \<longrightarrow>
               length (filter (hasAccountingKey a) z1) = 1 \<and>
               filter (hasAccountingKey a) z2 = filter (hasAccountingKey a) z1)))"
proof (intro conjI impI)
  assume h: "k \<noteq> [] \<and> length (filter (hasMonzoKey k) s) \<le> 1 \<and> distinct (map id' transactions)"
  let ?s1 = "snd (processMonzoTransactions Date_parse convert getAllCurrencyValues
                    c transactions s)"
  let ?s2 = "snd (processMonzoTransactions Date_parse convert getAllCurrencyValues
                    c2 transactions2 ?s1)"
  from h have k: "k \<noteq> []" and before: "length (filter (hasMonzoKey k) s) \<le> 1"
    and d: "distinct (map id' transactions)" by simp_all
  have one: "length (filter (hasMonzoKey k) ?s1) \<le> 1"
    by (rule monzo_key_at_most_once[OF conv k before d])
  have present: "c \<and> (\<exists>t \<in> set transactions. id' t = k \<and>
                    (\<forall>n. createMonzoMovementRow convert getAllCurrencyValues t n \<noteq> None))
               \<longrightarrow> (\<exists>r \<in> set ?s1. hasMonzoKey k r)"
  proof
    assume p: "c \<and> (\<exists>t \<in> set transactions. id' t = k \<and>
                    (\<forall>n. createMonzoMovementRow convert getAllCurrencyValues t n \<noteq> None))"
    then obtain t where t: "t \<in> set transactions" "id' t = k"
      "\<forall>n. createMonzoMovementRow convert getAllCurrencyValues t n \<noteq> None" by blast
    from p have c: "c = True" by simp
    from monzo_fetched_key_present[OF conv t(1) t(3), of Date_parse s] t(2) c
    show "\<exists>r \<in> set ?s1. hasMonzoKey k r" by simp
  qed
  have again: "(\<exists>r \<in> set ?s1. hasMonzoKey k r) \<longrightarrow>
               length (filter (hasMonzoKey k) ?s1) = 1 \<and>
               filter (hasMonzoKey k) ?s2 = filter (hasMonzoKey k) ?s1"
  proof
    assume e: "\<exists>r \<in> set ?s1. hasMonzoKey k r"
    then obtain r where r: "r \<in> set ?s1" "hasMonzoKey k r" by blast
    from exactly_one_of_at_most_one[OF one e]
      monzo_known_key_not_added[OF conv k r, of Date_parse getAllCurrencyValues c2 transactions2]
    show "length (filter (hasMonzoKey k) ?s1) = 1 \<and>
               filter (hasMonzoKey k) ?s2 = filter (hasMonzoKey k) ?s1" by simp
  qed
  from one present again
  show "let s1 = ?s1;
            s2 = snd (processMonzoTransactions Date_parse convert getAllCurrencyValues
                         c2 transactions2 s1)
         in length (filter (hasMonzoKey k) s1) \<le> 1 \<and>
            (c \<and> (\<exists>t \<in> set transactions. id' t = k \<and>
                    (\<forall>n. createMonzoMovementRow convert getAllCurrencyValues t n \<noteq> None))
               \<longrightarrow> (\<exists>r \<in> set s1. hasMonzoKey k r)) \<and>
            ((\<exists>r \<in> set s1. hasMonzoKey k r) \<longrightarrow>
               length (filter (hasMonzoKey k) s1) = 1 \<and>
               filter (hasMonzoKey k) s2 = filter (hasMonzoKey k) s1)"
    unfolding Let_def by blast
next
  assume h: "a \<noteq> 0 \<and> length (filter (hasAccountingKey a) z) \<le> 1 \<and>
      distinct (map splitwiseId (creditMovements @ debitMovements))"
  let ?z1 = "snd (processSplitwiseMovements Date_parse getAllCurrencyValues
                    c creditMovements debitMovements z)"
  let ?z2 = "snd (processSplitwiseMovements Date_parse getAllCurrencyValues
                    c2 creditMovements2 debitMovements2 ?z1)"
  from h have a: "a \<noteq> 0" and before: "length (filter (hasAccountingKey a) z) \<le> 1"
    and d: "distinct (map splitwiseId (creditMovements @ debitMovements))" by simp_all
  have one: "length (filter (hasAccountingKey a) ?z1) \<le> 1"
    by (rule splitwise_key_at_most_once[OF a before d])
  have present: "c \<and> (\<exists>m \<in> set (creditMovements @ debitMovements). splitwiseId m = a) \<and>
             toString a \<notin> getExistingAccountingSystemIds z \<and>
             fst (processSplitwiseMovements Date_parse getAllCurrencyValues
                    c creditMovements debitMovements z) = Inr ()
               \<longrightarrow> (\<exists>r \<in> set ?z1. hasAccountingKey a r)"
  proof
    assume p: "c \<and> (\<exists>m \<in> set (creditMovements @ debitMovements). splitwiseId m = a) \<and>
             toString a \<notin> getExistingAccountingSystemIds z \<and>
             fst (processSplitwiseMovements Date_parse getAllCurrencyValues
                    c creditMovements debitMovements z) = Inr ()"
    then obtain m where m: "m \<in> set (creditMovements @ debitMovements)" "splitwiseId m = a"
      by blast
    from p have c: "c = True" by simp
    from p m(2) c have new: "toString (splitwiseId m) \<notin> getExistingAccountingSystemIds z"
      and ok: "fst (processSplitwiseMovements Date_parse getAllCurrencyValues
                    True creditMovements debitMovements z) = Inr ()" by simp_all
    from splitwise_fetched_key_present[OF m(1) new ok] m(2) c
    show "\<exists>r \<in> set ?z1. hasAccountingKey a r" by simp
  qed
  have again: "(\<exists>r \<in> set ?z1. hasAccountingKey a r) \<longrightarrow>
               length (filter (hasAccountingKey a) ?z1) = 1 \<and>
               filter (hasAccountingKey a) ?z2 = filter (hasAccountingKey a) ?z1"
  proof
    assume e: "\<exists>r \<in> set ?z1. hasAccountingKey a r"
    then obtain r where r: "r \<in> set ?z1" "hasAccountingKey a r" by blast
    from exactly_one_of_at_most_one[OF one e]
      splitwise_known_key_not_added[OF a r, of Date_parse getAllCurrencyValues c2
        creditMovements2 debitMovements2]
    show "length (filter (hasAccountingKey a) ?z1) = 1 \<and>
               filter (hasAccountingKey a) ?z2 = filter (hasAccountingKey a) ?z1" by simp
  qed
  from one present again
  show "let z1 = ?z1;
            z2 = snd (processSplitwiseMovements Date_parse getAllCurrencyValues
                         c2 creditMovements2 debitMovements2 z1)
         in length (filter (hasAccountingKey a) z1) \<le> 1 \<and>
            (c \<and> (\<exists>m \<in> set (creditMovements @ debitMovements). splitwiseId m = a) \<and>
             toString a \<notin> getExistingAccountingSystemIds z \<and>
             fst (processSplitwiseMovements Date_parse getAllCurrencyValues
                    c creditMovements debitMovements z) = Inr ()
               \<longrightarrow> (\<exists>r \<in> set z1. hasAccountingKey a r)) \<and>
            ((\<exists>r \<in> set z1. hasAccountingKey a r) \<longrightarrow>
               length (filter (hasAccountingKey a) z1) = 1 \<and>
               filter (hasAccountingKey a) z2 = filter (hasAccountingKey a) z1)"
    unfolding Let_def by blast
qed

theorem ingestion_is_idempotent_witness:
  "length (filter (hasMonzoKey ''tx_1'')
     (snd (processMonzoTransactions exampleParse exampleConvert exampleValues True
             [exampleTransaction] []))) = 1 \<and>
   filter (hasMonzoKey ''tx_1'')
     (snd (processMonzoTransactions exampleParse exampleConvert exampleValues True
             [exampleTransaction]
             (snd (processMonzoTransactions exampleParse exampleConvert exampleValues True
                     [exampleTransaction] []))))
   = filter (hasMonzoKey ''tx_1'')
       (snd (processMonzoTransactions exampleParse exampleConvert exampleValues True
               [exampleTransaction] [])) \<and>
   length (filter (hasAccountingKey 77)
     (snd (processSplitwiseMovements exampleParse exampleValues True
             [exampleSplitwise] [] []))) = 1 \<and>
   filter (hasAccountingKey 77)
     (snd (processSplitwiseMovements exampleParse exampleValues True [exampleSplitwise] []
             (snd (processSplitwiseMovements exampleParse exampleValues True
                     [exampleSplitwise] [] []))))
   = filter (hasAccountingKey 77)
       (snd (processSplitwiseMovements exampleParse exampleValues True
               [exampleSplitwise] [] []))"
proof -
  have conv: "recordsTransaction exampleConvert"
    by (auto simp: recordsTransaction_def exampleConvert_def exampleRow_def)
  have m1: "''tx_1'' \<noteq> [] \<and> length (filter (hasMonzoKey ''tx_1'') []) \<le> 1 \<and>
            distinct (map id' [exampleTransaction])" by simp
  have m2: "True \<and> (\<exists>t \<in> set [exampleTransaction]. id' t = ''tx_1'' \<and>
              (\<forall>n. createMonzoMovementRow exampleConvert exampleValues t n \<noteq> None))"
    by (simp add: exampleTransaction_def createMonzoMovementRow_def exampleConvert_def
          exampleValues_def)
  have a1: "(77::int) \<noteq> 0 \<and> length (filter (hasAccountingKey 77) []) \<le> 1 \<and>
            distinct (map splitwiseId ([exampleSplitwise] @ []))" by simp
  have run: "fst (processSplitwiseMovements exampleParse exampleValues True
                    [exampleSplitwise] [] []) = Inr ()"
    by (simp add: processSplitwiseMovements_def getExistingAccountingSystemIds_def
          getLastRow_def createSplitwiseMovementRow_def exampleSplitwise_def exampleParse_def
          exampleValues_def getNextId_def addMovementsBatch_def js_sort_def addMovement_def
          idExists_def Let_def)
  have a2: "True \<and> (\<exists>m \<in> set ([exampleSplitwise] @ []). splitwiseId m = 77) \<and>
            toString 77 \<notin> getExistingAccountingSystemIds [] \<and>
            fst (processSplitwiseMovements exampleParse exampleValues True
                    [exampleSplitwise] [] []) = Inr ()"
    using run by (simp add: exampleSplitwise_def getExistingAccountingSystemIds_def getLastRow_def)
  note T = ingestion_is_idempotent
    [OF conv, where k = "''tx_1''" and s = "[]" and transactions = "[exampleTransaction]"
       and Date_parse = exampleParse and getAllCurrencyValues = exampleValues
       and c = True and ?c2.0 = True and ?transactions2.0 = "[exampleTransaction]"
       and a = 77 and z = "[]" and creditMovements = "[exampleSplitwise]"
       and debitMovements = "[]" and ?creditMovements2.0 = "[exampleSplitwise]"
       and ?debitMovements2.0 = "[]",
     unfolded Let_def]
  from T m1 m2 a1 a2 show ?thesis by blast
qed

end
